(* ===== verification/Prelude.thy ===== *)
theory Prelude imports Main "HOL-Library.Word" "HOL-Library.AList" "HOL-Library.Multiset" "HOL-Library.Code_Target_Numeral" begin

text \<open>
  Shared material of the development: Go's 64-bit integers, Go's maps as association
  lists with distinct keys (behind an interface stated as a locale), and the functions
  of Go's package \<open>strings\<close> the program calls, on byte strings.

  Go's \<open>int\<close> and \<open>int64\<close> are both 64 bits wide on the platforms the proxy is built
  for; both are \<open>64 word\<close> here, so that \<open>+\<close>, \<open>-\<close> and \<open>*\<close> wrap as they do in Go and
  comparisons are the signed ones, \<open><s\<close> and \<open><=s\<close>. A Go string is a sequence of bytes:
  a \<open>char list\<close>.
\<close>

named_theorems go_map_simps \<open>lookup and update of Go maps\<close>
named_theorems go_string_simps \<open>evaluation of the string functions\<close>

section \<open>64-bit integers\<close>

type_synonym go_int = "64 word"

lemma sint_bounds64:
  fixes a :: go_int
  shows "- 9223372036854775808 \<le> sint a" and "sint a < 9223372036854775808"
  using sint_greater_eq [of a] sint_less [of a] by simp_all

lemma sint_of_int_in_range:
  assumes "- 9223372036854775808 \<le> i" and "i < 9223372036854775808"
  shows "sint (word_of_int i :: go_int) = i"
  using assms by (simp add: sint_sbintrunc' signed_take_bit_int_eq_self_iff)

lemma sint_add_in_range:
  fixes a b :: go_int
  assumes "- 9223372036854775808 \<le> sint a + sint b" and "sint a + sint b < 9223372036854775808"
  shows "sint (a + b) = sint a + sint b"
  using sint_of_int_in_range [OF assms] by simp

lemma sint_diff_in_range:
  fixes a b :: go_int
  assumes "- 9223372036854775808 \<le> sint a - sint b" and "sint a - sint b < 9223372036854775808"
  shows "sint (a - b) = sint a - sint b"
  using sint_of_int_in_range [OF assms] by simp

lemma sint_mult_in_range:
  fixes a b :: go_int
  assumes "- 9223372036854775808 \<le> sint a * sint b" and "sint a * sint b < 9223372036854775808"
  shows "sint (a * b) = sint a * sint b"
  using sint_of_int_in_range [OF assms] by simp

text \<open>Go's integer division truncates towards zero; the code divides by positive constants only.\<close>

definition go_div :: "go_int \<Rightarrow> go_int \<Rightarrow> go_int" where
  "go_div a b = word_of_int (sgn (sint a) * sgn (sint b) * (\<bar>sint a\<bar> div \<bar>sint b\<bar>))"

lemma sint_go_div_nonneg:
  assumes "0 \<le> sint a" and "0 < sint b"
  shows "sint (go_div a b) = sint a div sint b"
proof (cases "sint a = 0")
  case True
  then show ?thesis by (simp add: go_div_def)
next
  case False
  have "sint a div sint b \<le> sint a div 1"
    using assms by (intro zdiv_mono2) simp_all
  moreover have "0 \<le> sint a div sint b"
    using assms by (simp add: pos_imp_zdiv_nonneg_iff)
  ultimately have "sint (word_of_int (sint a div sint b) :: go_int) = sint a div sint b"
    using sint_bounds64 [of a] by (intro sint_of_int_in_range) simp_all
  with False assms show ?thesis by (simp add: go_div_def)
qed

section \<open>Step relations\<close>

lemma reachable_invariant:
  assumes "R\<^sup>*\<^sup>* s t" and "P s" and "\<And>x y. R x y \<Longrightarrow> P x \<Longrightarrow> P y"
  shows "P t"
  using assms by (induction rule: rtranclp_induct) blast+

section \<open>Go maps\<close>

text \<open>
  The interface of a map as the program uses it: lookup, assignment of a key, and the
  list of entries a \<open>range\<close> loop visits. The laws say what a lookup returns after an
  assignment, and that a \<open>range\<close> visits every entry once.
\<close>

locale go_map =
  fixes empty :: "'m"
    and get :: "'m \<Rightarrow> 'k \<Rightarrow> 'v option"
    and put :: "'k \<Rightarrow> 'v \<Rightarrow> 'm \<Rightarrow> 'm"
    and entries :: "'m \<Rightarrow> ('k \<times> 'v) list"
    and wf :: "'m \<Rightarrow> bool"
  assumes get_empty: "get empty k = None"
    and get_put: "get (put k v m) k' = (if k' = k then Some v else get m k')"
    and wf_empty: "wf empty"
    and wf_put: "wf m \<Longrightarrow> wf (put k v m)"
    and entries_get: "wf m \<Longrightarrow> (k, v) \<in> set (entries m) \<longleftrightarrow> get m k = Some v"
    and entries_distinct: "wf m \<Longrightarrow> distinct (map fst (entries m))"
begin

lemma put_all_get:
  assumes "distinct (map fst ps)"
  shows "get (fold (\<lambda>(k, v). put k v) ps m) k =
    (case map_of ps k of None \<Rightarrow> get m k | Some v \<Rightarrow> Some v)"
  using assms
proof (induction ps arbitrary: m)
  case Nil
  then show ?case by simp
next
  case (Cons p ps)
  then show ?case
    by (cases p) (auto simp: get_put map_of_eq_None_iff [THEN iffD2] split: option.splits)
qed

lemma put_all_wf: "wf m \<Longrightarrow> wf (fold (\<lambda>(k, v). put k v) ps m)"
  by (induction ps arbitrary: m) (auto simp: wf_put)

lemma entries_map_of:
  assumes "wf m"
  shows "map_of (entries m) k = get m k"
proof (cases "get m k")
  case None
  then have "k \<notin> fst ` set (entries m)"
    using entries_get [OF assms] by fastforce
  with None show ?thesis by (simp add: map_of_eq_None_iff)
next
  case (Some v)
  then show ?thesis
    using assms by (simp add: entries_get entries_distinct map_of_is_SomeI)
qed

end

text \<open>
  A map whose values are added up, as in \<open>m[k] += v\<close>: a missing key reads as zero. What
  the map holds afterwards does not depend on the order in which the values came.
\<close>

locale go_counter_map = go_map empty get put entries wf
  for empty :: "'m" and get :: "'m \<Rightarrow> 'k \<Rightarrow> 'v::comm_monoid_add option" and put entries wf +
  fixes add_at :: "'k \<Rightarrow> 'v \<Rightarrow> 'm \<Rightarrow> 'm"
    and at :: "'m \<Rightarrow> 'k \<Rightarrow> 'v"
  assumes add_at_put: "add_at k v m = put k (at m k + v) m"
    and at_get: "at m k = (case get m k of None \<Rightarrow> 0 | Some v \<Rightarrow> v)"
begin

lemma at_add_at: "at (add_at k v m) k' = (if k' = k then at m k + v else at m k')"
  by (simp add: at_get add_at_put get_put)

lemma wf_add_at: "wf m \<Longrightarrow> wf (add_at k v m)"
  by (simp add: add_at_put wf_put)

lemma wf_add_all: "wf m \<Longrightarrow> wf (fold (\<lambda>(k, v). add_at k v) ps m)"
  by (induction ps arbitrary: m) (auto simp: wf_add_at)

lemma at_add_all:
  "at (fold (\<lambda>(k, v). add_at k v) ps m) k =
    at m k + sum_list (map snd (filter (\<lambda>p. fst p = k) ps))"
proof (induction ps arbitrary: m)
  case Nil
  then show ?case by simp
next
  case (Cons p ps)
  then show ?case by (cases p) (auto simp: at_add_at ac_simps)
qed

lemma at_add_all_order:
  assumes "mset ps = mset qs"
  shows "at (fold (\<lambda>(k, v). add_at k v) ps m) k = at (fold (\<lambda>(k, v). add_at k v) qs m) k"
proof -
  have "image_mset snd (filter_mset (\<lambda>p. fst p = k) (mset ps)) =
      image_mset snd (filter_mset (\<lambda>p. fst p = k) (mset qs))"
    using assms by simp
  then have "mset (map snd (filter (\<lambda>p. fst p = k) ps)) = mset (map snd (filter (\<lambda>p. fst p = k) qs))"
    by (simp only: mset_map mset_filter)
  then have "sum_mset (mset (map snd (filter (\<lambda>p. fst p = k) ps))) =
      sum_mset (mset (map snd (filter (\<lambda>p. fst p = k) qs)))"
    by simp
  then show ?thesis
    by (simp only: at_add_all sum_mset_sum_list)
qed

lemma dom_add_all:
  "get (fold (\<lambda>(k, v). add_at k v) ps m) k = None \<longleftrightarrow> get m k = None \<and> k \<notin> fst ` set ps"
proof (induction ps arbitrary: m)
  case Nil
  then show ?case by simp
next
  case (Cons p ps)
  then show ?case by (cases p) (auto simp: add_at_put get_put)
qed

end

text \<open>
  The model's maps: association lists with distinct keys. The order of the list stands
  for one order in which a \<open>range\<close> loop may visit the entries; results that must not
  depend on it are proved to be invariant under permutation.
\<close>

type_synonym ('k, 'v) gomap = "('k \<times> 'v) list"
type_synonym params = "(string, string) gomap"
type_synonym disks = "(string, go_int) gomap"

definition map_wf :: "('k, 'v) gomap \<Rightarrow> bool" where
  "map_wf m = distinct (map fst m)"

definition map_get :: "('k, 'v) gomap \<Rightarrow> 'k \<Rightarrow> 'v option" where
  "map_get m k = map_of m k"

definition map_put :: "'k \<Rightarrow> 'v \<Rightarrow> ('k, 'v) gomap \<Rightarrow> ('k, 'v) gomap" where
  "map_put k v m = AList.update k v m"

text \<open>Reading a missing key of a Go map gives the zero value of the element type.\<close>

definition str_at :: "('k, string) gomap \<Rightarrow> 'k \<Rightarrow> string" where
  "str_at m k = (case map_get m k of None \<Rightarrow> [] | Some v \<Rightarrow> v)"

definition int_at :: "('k, go_int) gomap \<Rightarrow> 'k \<Rightarrow> go_int" where
  "int_at m k = (case map_get m k of None \<Rightarrow> 0 | Some v \<Rightarrow> v)"

definition add_at :: "'k \<Rightarrow> go_int \<Rightarrow> ('k, go_int) gomap \<Rightarrow> ('k, go_int) gomap" where
  "add_at k v m = map_put k (int_at m k + v) m"

definition has_key :: "('k, 'v) gomap \<Rightarrow> 'k \<Rightarrow> bool" where
  "has_key m k = (map_get m k \<noteq> None)"

lemma map_get_simps [simp, go_map_simps]:
  "map_get [] k = None"
  "map_get ((k', v) # m) k = (if k = k' then Some v else map_get m k)"
  by (simp_all add: map_get_def)

lemma map_put_simps [simp, go_map_simps]:
  "map_put k v [] = [(k, v)]"
  "map_put k v ((k', v') # m) = (if k' = k then (k, v) # m else (k', v') # map_put k v m)"
  by (simp_all add: map_put_def)

interpretation gm: go_map "[]" map_get map_put "\<lambda>m. m" map_wf
proof (unfold_locales, goal_cases)
  case (2 k v m k')
  show ?case by (simp add: map_get_def map_put_def update_conv')
next
  case (4 m k v)
  then show ?case by (simp add: map_put_def map_wf_def distinct_update)
next
  case (5 m k v)
  then show ?case by (simp add: map_get_def map_wf_def)
qed (simp_all add: map_get_def map_wf_def)

interpretation gc: go_counter_map "[]" map_get map_put "\<lambda>m. m" map_wf add_at int_at
  by unfold_locales (simp_all add: add_at_def int_at_def)

lemmas [go_map_simps] = gm.get_put gc.at_add_at

lemma int_at_empty [simp]: "int_at [] k = 0"
  by (simp add: int_at_def)

lemma str_at_empty [simp]: "str_at [] k = []"
  by (simp add: str_at_def)

lemma int_at_put: "int_at (map_put k v m) k' = (if k' = k then v else int_at m k')"
  by (simp add: int_at_def gm.get_put)

lemma str_at_put: "str_at (map_put k v m) k' = (if k' = k then v else str_at m k')"
  by (simp add: str_at_def gm.get_put)

lemma map_wf_empty [simp]: "map_wf []"
  by (simp add: map_wf_def)

lemma map_wf_Cons [simp]: "map_wf ((k, v) # m) \<longleftrightarrow> \<not> has_key m k \<and> map_wf m"
  by (auto simp: map_wf_def has_key_def map_get_def map_of_eq_None_iff image_iff)

lemma has_key_simps [simp]:
  "\<not> has_key [] k"
  "has_key ((k', v) # m) k \<longleftrightarrow> k = k' \<or> has_key m k"
  by (auto simp: has_key_def)

lemma has_key_fst: "has_key m k \<longleftrightarrow> k \<in> fst ` set m"
  by (simp add: has_key_def map_get_def map_of_eq_None_iff)

lemma map_get_mem: "map_wf m \<Longrightarrow> map_get m k = Some v \<longleftrightarrow> (k, v) \<in> set m"
  by (simp add: gm.entries_get)

lemma map_wf_perm: "mset m = mset m' \<Longrightarrow> map_wf m \<longleftrightarrow> map_wf m'"
  unfolding map_wf_def by (metis mset_eq_imp_distinct_iff mset_map)

lemma map_get_perm:
  assumes "map_wf m" and "mset m = mset m'"
  shows "map_get m k = map_get m' k"
proof -
  have "map_wf m'" using assms map_wf_perm by blast
  moreover have "set m = set m'" using assms(2) by (rule mset_eq_setD)
  ultimately show ?thesis
    using assms(1) unfolding map_get_def map_wf_def by (metis map_of_inject_set)
qed

lemma int_at_perm: "map_wf m \<Longrightarrow> mset m = mset m' \<Longrightarrow> int_at m k = int_at m' k"
  by (simp add: int_at_def map_get_perm)

end
