(* ===== verification/Gostrings.thy ===== *)
theory Gostrings imports Prelude "HOL-Library.Sublist" begin

text \<open>
  The functions of Go's package \<open>strings\<close> the program calls, on byte strings, with
  the laws the components use. \<open>TrimSpace\<close> removes the UTF-8 encodings of Unicode white
  space; \<open>ToUpper\<close> and \<open>ToLower\<close> are modelled as far as the program looks at their
  result, which it compares with ASCII text only: the ASCII letters, and the characters
  beyond ASCII whose other case is an ASCII letter.
\<close>

section \<open>Prefixes, suffixes, cuts\<close>

fun CutPrefix :: "string \<Rightarrow> string \<Rightarrow> string option" where
  "CutPrefix s [] = Some s"
| "CutPrefix [] (p # ps) = None"
| "CutPrefix (c # s) (p # ps) = (if c = p then CutPrefix s ps else None)"

definition HasPrefix :: "string \<Rightarrow> string \<Rightarrow> bool" where
  "HasPrefix s p = (CutPrefix s p \<noteq> None)"

definition TrimPrefix :: "string \<Rightarrow> string \<Rightarrow> string" where
  "TrimPrefix s p = (case CutPrefix s p of None \<Rightarrow> s | Some rest \<Rightarrow> rest)"

definition HasSuffix :: "string \<Rightarrow> string \<Rightarrow> bool" where
  "HasSuffix s p = HasPrefix (rev s) (rev p)"

lemma CutPrefix_Some: "CutPrefix s p = Some r \<longleftrightarrow> s = p @ r"
  by (induction s p rule: CutPrefix.induct) auto

lemma CutPrefix_append [simp]: "CutPrefix (p @ r) p = Some r"
  by (simp add: CutPrefix_Some)

lemma HasPrefix_iff: "HasPrefix s p \<longleftrightarrow> (\<exists>r. s = p @ r)"
  by (auto simp: HasPrefix_def CutPrefix_Some)

lemma HasPrefix_simps [simp]:
  "HasPrefix s []"
  "\<not> HasPrefix [] (p # ps)"
  "HasPrefix (c # s) (p # ps) \<longleftrightarrow> c = p \<and> HasPrefix s ps"
  by (simp_all add: HasPrefix_def)

lemma TrimPrefix_append [simp]: "TrimPrefix (p @ r) p = r"
  by (simp add: TrimPrefix_def)

text \<open>\<open>Cut(s, sep)\<close> for a one-byte separator: what is before, what is after, and whether it was found.\<close>

fun cut_at :: "char \<Rightarrow> string \<Rightarrow> (string \<times> string) option" where
  "cut_at c [] = None"
| "cut_at c (x # s) =
     (if x = c then Some ([], s)
      else (case cut_at c s of None \<Rightarrow> None | Some (a, b) \<Rightarrow> Some (x # a, b)))"

definition Cut :: "string \<Rightarrow> char \<Rightarrow> string \<times> string \<times> bool" where
  "Cut s c = (case cut_at c s of None \<Rightarrow> (s, [], False) | Some (a, b) \<Rightarrow> (a, b, True))"

lemma cut_at_None: "cut_at c s = None \<longleftrightarrow> c \<notin> set s"
  by (induction s) (auto split: option.splits)

lemma cut_at_append: "c \<notin> set a \<Longrightarrow> cut_at c (a @ c # b) = Some (a, b)"
  by (induction a) auto

lemma cut_at_SomeD: "cut_at c s = Some (a, b) \<Longrightarrow> s = a @ c # b \<and> c \<notin> set a"
proof (induction s arbitrary: a)
  case Nil
  then show ?case by simp
next
  case (Cons x s)
  show ?case
  proof (cases "x = c")
    case True
    with Cons.prems show ?thesis by simp
  next
    case False
    with Cons.prems obtain a' where "cut_at c s = Some (a', b)" and "a = x # a'"
      by (auto split: option.split_asm)
    with Cons.IH [of a'] False show ?thesis by simp
  qed
qed

lemma cut_at_Some: "cut_at c s = Some (a, b) \<longleftrightarrow> s = a @ c # b \<and> c \<notin> set a"
  by (rule iffI) (erule cut_at_SomeD, simp add: cut_at_append)

lemma Cut_notin: "c \<notin> set s \<Longrightarrow> Cut s c = (s, [], False)"
  by (simp add: Cut_def cut_at_None [THEN iffD2])

lemma Cut_append: "c \<notin> set a \<Longrightarrow> Cut (a @ c # b) c = (a, b, True)"
  by (simp add: Cut_def cut_at_append)

lemma Cut_found: "Cut s c = (a, b, True) \<longleftrightarrow> s = a @ c # b \<and> c \<notin> set a"
proof (cases "cut_at c s")
  case None
  then have "c \<notin> set s" by (simp add: cut_at_None)
  then show ?thesis by (auto simp: Cut_notin)
next
  case (Some p)
  then show ?thesis
    by (cases p) (auto simp: Cut_def cut_at_append dest: cut_at_SomeD)
qed

section \<open>Splitting\<close>

fun Split :: "string \<Rightarrow> char \<Rightarrow> string list" where
  "Split [] c = [[]]"
| "Split (x # s) c =
     (if x = c then [] # Split s c
      else (case Split s c of [] \<Rightarrow> [[x]] | f # fs \<Rightarrow> (x # f) # fs))"

fun join :: "char \<Rightarrow> string list \<Rightarrow> string" where
  "join c [] = []"
| "join c [f] = f"
| "join c (f # g # fs) = f @ c # join c (g # fs)"

lemma Split_nonempty [simp]: "Split s c \<noteq> []"
  by (induction s) (auto split: list.splits)

lemma Split_fields: "f \<in> set (Split s c) \<Longrightarrow> c \<notin> set f"
proof (induction s arbitrary: f)
  case Nil
  then show ?case by simp
next
  case (Cons x s)
  then show ?case by (cases "Split s c") (auto split: if_splits)
qed

lemma join_Split: "join c (Split s c) = s"
proof (induction s)
  case Nil
  then show ?case by simp
next
  case (Cons x s)
  obtain f fs where "Split s c = f # fs"
    using Split_nonempty [of s c] by (cases "Split s c") auto
  with Cons show ?case by (cases fs) auto
qed

lemma Split_notin: "c \<notin> set s \<Longrightarrow> Split s c = [s]"
  by (induction s) auto

lemma Split_append: "c \<notin> set a \<Longrightarrow> Split (a @ c # b) c = a # Split b c"
  by (induction a) auto

lemma Split_join:
  assumes "fs \<noteq> []" and "\<forall>f \<in> set fs. c \<notin> set f"
  shows "Split (join c fs) c = fs"
  using assms by (induction c fs rule: join.induct) (auto simp: Split_notin Split_append)

lemma hd_Split: "hd (Split s c) = fst (Cut s c)"
proof (cases "c \<in> set s")
  case True
  then obtain a b where "cut_at c s = Some (a, b)"
    using cut_at_None [of c s] by fastforce
  then have "s = a @ c # b" and "c \<notin> set a"
    by (simp_all add: cut_at_Some)
  then show ?thesis by (simp add: Split_append Cut_append)
qed (simp add: Split_notin Cut_notin)

section \<open>Trimming\<close>

definition Trim :: "string \<Rightarrow> char \<Rightarrow> string" where
  "Trim s c = rev (dropWhile (\<lambda>x. x = c) (rev (dropWhile (\<lambda>x. x = c) s)))"

definition TrimRight :: "string \<Rightarrow> char \<Rightarrow> string" where
  "TrimRight s c = rev (dropWhile (\<lambda>x. x = c) (rev s))"

text \<open>
  The bytes of the encodings of Unicode white space: one byte for ASCII, two for U+0085
  and U+00A0, three for U+1680, U+2000 to U+200A, U+2028, U+2029, U+202F, U+205F and
  U+3000.
\<close>

definition space1 :: "char \<Rightarrow> bool" where
  "space1 a = (a = CHR 0x09 \<or> a = CHR 0x0A \<or> a = CHR 0x0B \<or> a = CHR 0x0C \<or> a = CHR 0x0D \<or> a = CHR 0x20)"

definition space2 :: "char \<Rightarrow> char \<Rightarrow> bool" where
  "space2 a b = (a = CHR 0xC2 \<and> (b = CHR 0x85 \<or> b = CHR 0xA0))"

definition space3 :: "char \<Rightarrow> char \<Rightarrow> char \<Rightarrow> bool" where
  "space3 a b c =
     (a = CHR 0xE1 \<and> b = CHR 0x9A \<and> c = CHR 0x80
    \<or> a = CHR 0xE2 \<and> b = CHR 0x80 \<and>
        c \<in> {CHR 0x80, CHR 0x81, CHR 0x82, CHR 0x83, CHR 0x84, CHR 0x85, CHR 0x86, CHR 0x87,
             CHR 0x88, CHR 0x89, CHR 0x8A, CHR 0xA8, CHR 0xA9, CHR 0xAF}
    \<or> a = CHR 0xE2 \<and> b = CHR 0x81 \<and> c = CHR 0x9F
    \<or> a = CHR 0xE3 \<and> b = CHR 0x80 \<and> c = CHR 0x80)"

fun trim_left :: "string \<Rightarrow> string" where
  "trim_left [] = []"
| "trim_left [a] = (if space1 a then [] else [a])"
| "trim_left [a, b] =
     (if space1 a then trim_left [b] else if space2 a b then [] else [a, b])"
| "trim_left (a # b # c # s) =
     (if space1 a then trim_left (b # c # s)
      else if space2 a b then trim_left (c # s)
      else if space3 a b c then trim_left s
      else a # b # c # s)"

text \<open>The same from the end: the argument is the reversed string.\<close>

fun trim_right :: "string \<Rightarrow> string" where
  "trim_right [] = []"
| "trim_right [a] = (if space1 a then [] else [a])"
| "trim_right [a, b] =
     (if space1 a then trim_right [b] else if space2 b a then [] else [a, b])"
| "trim_right (a # b # c # s) =
     (if space1 a then trim_right (b # c # s)
      else if space2 b a then trim_right (c # s)
      else if space3 c b a then trim_right s
      else a # b # c # s)"

definition TrimSpace :: "string \<Rightarrow> string" where
  "TrimSpace s = rev (trim_right (rev (trim_left s)))"

definition plain :: "char \<Rightarrow> bool" where
  "plain a = (of_char a < (128 :: nat) \<and> \<not> space1 a)"

lemma plain_not_space:
  "plain a \<Longrightarrow> \<not> space1 a"
  "plain a \<Longrightarrow> \<not> space2 a b"
  "plain b \<Longrightarrow> \<not> space2 a b"
  "plain a \<Longrightarrow> \<not> space3 a b c"
  "plain b \<Longrightarrow> \<not> space3 a b c"
  "plain c \<Longrightarrow> \<not> space3 a b c"
  by (auto simp: plain_def space2_def space3_def)

lemma trim_left_plain: "plain a \<Longrightarrow> trim_left (a # s) = a # s"
  by (cases "a # s" rule: trim_left.cases) (auto simp: plain_not_space)

lemma trim_right_plain: "plain a \<Longrightarrow> trim_right (a # s) = a # s"
  by (cases "a # s" rule: trim_right.cases) (auto simp: plain_not_space)

text \<open>A string that starts and ends with a byte that is neither white space nor beyond ASCII is left alone.\<close>

lemma TrimSpace_plain:
  assumes "s \<noteq> []" and "plain (hd s)" and "plain (last s)"
  shows "TrimSpace s = s"
proof -
  have "trim_left s = s"
    using assms(1,2) by (cases s) (simp_all add: trim_left_plain)
  moreover have "trim_right (rev s) = rev s"
    using assms(1,3) by (cases s rule: rev_cases) (simp_all add: trim_right_plain)
  ultimately show ?thesis by (simp add: TrimSpace_def)
qed

text \<open>White space at the end of a string does not reach past a byte that is none.\<close>

lemma trim_right_keeps:
  assumes "plain c"
  shows "\<exists>u'. trim_right (u @ c # s) = u' @ c # s"
proof (induction u rule: trim_right.induct)
  case 1
  then show ?case using assms by (intro exI [of _ "[]"]) (simp add: trim_right_plain)
next
  case (2 a)
  have "trim_right (a # c # s) = (if space1 a then c # s else a # c # s)"
    using assms by (cases s) (auto simp: trim_right_plain plain_not_space)
  then show ?case by (auto intro: exI [of _ "[]"] exI [of _ "[a]"])
next
  case (3 a b)
  then show ?case
    using assms
    by (auto simp: trim_right_plain plain_not_space intro: exI [of _ "[]"] exI [of _ "[a, b]"])
next
  case (4 a b d u)
  then show ?case by (auto intro: exI [of _ "a # b # d # u"])
qed

lemma TrimSpace_Nil [simp]: "TrimSpace [] = []"
  by (simp add: TrimSpace_def)

lemma TrimSpace_all_plain: "\<forall>a \<in> set s. plain a \<Longrightarrow> TrimSpace s = s"
  by (cases "s = []") (simp_all add: TrimSpace_plain)

lemma length_trim_left: "length (trim_left s) \<le> length s"
  by (induction s rule: trim_left.induct) auto

lemma trim_left_idem: "trim_left (trim_left s) = trim_left s"
  by (induction s rule: trim_left.induct) auto

section \<open>Case\<close>

definition upper1 :: "char \<Rightarrow> char" where
  "upper1 a = (let n = (of_char a :: nat) in
     if 97 \<le> n \<and> n \<le> 122 then char_of (n - 32) else a)"

definition lower1 :: "char \<Rightarrow> char" where
  "lower1 a = (let n = (of_char a :: nat) in
     if 65 \<le> n \<and> n \<le> 90 then char_of (n + 32) else a)"

text \<open>U+0131 and U+017F have the ASCII upper cases I and S.\<close>

fun ToUpper :: "string \<Rightarrow> string" where
  "ToUpper [] = []"
| "ToUpper [a] = [upper1 a]"
| "ToUpper (a # b # s) =
     (if a = CHR 0xC4 \<and> b = CHR 0xB1 then CHR ''I'' # ToUpper s
      else if a = CHR 0xC5 \<and> b = CHR 0xBF then CHR ''S'' # ToUpper s
      else upper1 a # ToUpper (b # s))"

text \<open>U+0130 and U+212A have the ASCII lower cases i and k.\<close>

fun ToLower :: "string \<Rightarrow> string" where
  "ToLower [] = []"
| "ToLower [a] = [lower1 a]"
| "ToLower [a, b] =
     (if a = CHR 0xC4 \<and> b = CHR 0xB0 then ''i'' else [lower1 a, lower1 b])"
| "ToLower (a # b # c # s) =
     (if a = CHR 0xC4 \<and> b = CHR 0xB0 then CHR ''i'' # ToLower (c # s)
      else if a = CHR 0xE2 \<and> b = CHR 0x84 \<and> c = CHR 0xAA then CHR ''k'' # ToLower s
      else lower1 a # ToLower (b # c # s))"

section \<open>Search\<close>

fun Index :: "string \<Rightarrow> char \<Rightarrow> nat option" where
  "Index [] c = None"
| "Index (x # s) c = (if x = c then Some 0 else map_option Suc (Index s c))"

fun LastIndex :: "string \<Rightarrow> char \<Rightarrow> nat option" where
  "LastIndex [] c = None"
| "LastIndex (x # s) c =
     (case LastIndex s c of Some i \<Rightarrow> Some (Suc i) | None \<Rightarrow> if x = c then Some 0 else None)"

lemma LastIndex_None: "LastIndex s c = None \<longleftrightarrow> c \<notin> set s"
  by (induction s) (auto split: option.splits)

lemma LastIndex_append: "c \<notin> set b \<Longrightarrow> LastIndex (a @ c # b) c = Some (length a)"
  by (induction a) (auto simp: LastIndex_None [THEN iffD2] split: option.splits)

lemma LastIndex_Some:
  "LastIndex s c = Some i \<Longrightarrow> \<exists>a b. s = a @ c # b \<and> c \<notin> set b \<and> length a = i"
proof (induction s arbitrary: i)
  case Nil
  then show ?case by simp
next
  case (Cons x s)
  show ?case
  proof (cases "LastIndex s c")
    case None
    with Cons.prems have "x = c" "i = 0" by (auto split: if_splits)
    with None show ?thesis by (auto simp: LastIndex_None intro: exI [of _ "[]"])
  next
    case (Some j)
    with Cons.IH obtain a b where "s = a @ c # b" "c \<notin> set b" "length a = j" by blast
    with Some Cons.prems show ?thesis by (intro exI [of _ "x # a"] exI [of _ b]) auto
  qed
qed

definition is_digit :: "char \<Rightarrow> bool" where
  "is_digit c = (48 \<le> (of_char c :: nat) \<and> (of_char c :: nat) \<le> 57)"

definition allDigits :: "string \<Rightarrow> bool" where
  "allDigits s = (s \<noteq> [] \<and> list_all is_digit s)"

lemma is_digit_plain: "is_digit c \<Longrightarrow> plain c"
  by (auto simp: is_digit_def plain_def space1_def)

end
