(* ===== verification/Strconv.thy ===== *)
theory Strconv imports Gostrings begin

text \<open>
  Go's package \<open>strconv\<close> as the program uses it: decimal integers (\<open>Atoi\<close>,
  \<open>ParseInt\<close>, \<open>FormatInt\<close>) and floating point numbers (\<open>ParseFloat\<close>, correctly
  rounded to binary64; the conversion of a binary64 number to \<open>int64\<close> as the amd64
  compiler does it).
\<close>

section \<open>Integers\<close>

definition digit_val :: "char \<Rightarrow> nat" where
  "digit_val c = of_char c - 48"

fun digits_acc :: "nat \<Rightarrow> string \<Rightarrow> nat option" where
  "digits_acc n [] = Some n"
| "digits_acc n (c # s) = (if is_digit c then digits_acc (10 * n + digit_val c) s else None)"

text \<open>One optional sign, then at least one digit; a value outside the range is an error.\<close>

definition ParseInt :: "string \<Rightarrow> go_int option" where
  "ParseInt s =
     (let (neg, body) =
        (case s of [] \<Rightarrow> (False, [])
         | c # t \<Rightarrow> if c = CHR ''+'' then (False, t) else if c = CHR ''-'' then (True, t) else (False, s))
      in if body = [] then None
         else case digits_acc 0 body of None \<Rightarrow> None
         | Some n \<Rightarrow>
             if neg then (if n \<le> 9223372036854775808 then Some (word_of_int (- int n)) else None)
             else (if n < 9223372036854775808 then Some (word_of_int (int n)) else None))"

definition Atoi :: "string \<Rightarrow> go_int option" where
  "Atoi s = ParseInt s"

text \<open>
  The value \<open>Atoi\<close> returns beside its error. \<open>ParseUint\<close> reads from the left and stops at the first
  byte that is no digit, with 0, or at the digit that leaves the range of 64-bit unsigned
  integers; then, as after a number beyond the signed range, the end of that range is returned.
\<close>

fun range_left :: "nat \<Rightarrow> string \<Rightarrow> bool" where
  "range_left n [] = False"
| "range_left n (c # s) =
     (is_digit c \<and> (18446744073709551616 \<le> 10 * n + digit_val c \<or> range_left (10 * n + digit_val c) s))"

definition Atoi_value :: "string \<Rightarrow> go_int" where
  "Atoi_value s =
     (case Atoi s of
        Some n \<Rightarrow> n
      | None \<Rightarrow>
         (let (neg, body) =
            (case s of [] \<Rightarrow> (False, [])
             | c # t \<Rightarrow> if c = CHR ''+'' then (False, t) else if c = CHR ''-'' then (True, t) else (False, s))
          in if body = [] \<or> (digits_acc 0 body = None \<and> \<not> range_left 0 body) then 0
             else if neg then word_of_int (- 9223372036854775808) else word_of_int 9223372036854775807))"

lemma Atoi_value_examples:
  "Atoi_value ''99999999999999999999x'' = 9223372036854775807"
  "Atoi_value ''9999999999999999999x'' = 0"
  "Atoi_value ''-99999999999999999999'' = - 9223372036854775808"
  by code_simp+

fun show_nat :: "nat \<Rightarrow> string" where
  "show_nat n =
     (if n < 10 then [char_of (48 + n)] else show_nat (n div 10) @ [char_of (48 + n mod 10)])"

declare show_nat.simps [simp del]

definition FormatInt :: "go_int \<Rightarrow> string" where
  "FormatInt w =
     (if sint w < 0 then CHR ''-'' # show_nat (nat (- sint w)) else show_nat (nat (sint w)))"

lemma digits_acc_append:
  "digits_acc n (s @ t) = (case digits_acc n s of None \<Rightarrow> None | Some m \<Rightarrow> digits_acc m t)"
  by (induction n s rule: digits_acc.induct) auto

lemma of_char_digit: "(d::nat) < 10 \<Longrightarrow> (of_char (char_of (48 + d) :: char) :: nat) = 48 + d"
  by (simp add: of_char_of)

lemma is_digit_char_of: "(d::nat) < 10 \<Longrightarrow> is_digit (char_of (48 + d))"
  by (simp add: is_digit_def of_char_digit)

lemma digit_val_char_of: "(d::nat) < 10 \<Longrightarrow> digit_val (char_of (48 + d)) = d"
  by (simp add: digit_val_def of_char_digit)

lemma show_nat_digits: "show_nat n \<noteq> [] \<and> list_all is_digit (show_nat n)"
proof (induction n rule: show_nat.induct)
  case (1 n)
  then show ?case
    by (cases "n < 10")
      (auto simp: show_nat.simps [of n] is_digit_char_of)
qed

lemma digits_acc_show_nat: "digits_acc 0 (show_nat n) = Some n"
proof (induction n rule: show_nat.induct)
  case (1 n)
  then show ?case
    by (cases "n < 10")
      (simp_all add: show_nat.simps [of n] digits_acc_append is_digit_char_of digit_val_char_of)
qed

lemma digit_not_sign: "is_digit c \<Longrightarrow> c \<noteq> CHR ''+'' \<and> c \<noteq> CHR ''-''"
  by (auto simp: is_digit_def)

lemma ParseInt_digits:
  assumes "s \<noteq> []" and "list_all is_digit s"
  shows "ParseInt s = (case digits_acc 0 s of None \<Rightarrow> None
    | Some n \<Rightarrow> if n < 9223372036854775808 then Some (word_of_int (int n)) else None)"
  using assms digit_not_sign by (cases s) (auto simp: ParseInt_def split: option.split)

lemma ParseInt_show_nat:
  "ParseInt (show_nat n) =
    (if n < 9223372036854775808 then Some (word_of_int (int n)) else None)"
  by (simp add: ParseInt_digits show_nat_digits digits_acc_show_nat)

lemma ParseInt_minus:
  "ParseInt (CHR ''-'' # show_nat n) =
    (if n \<le> 9223372036854775808 then Some (word_of_int (- int n)) else None)"
  by (simp add: ParseInt_def show_nat_digits digits_acc_show_nat)

lemma ParseInt_FormatInt: "ParseInt (FormatInt w) = Some w"
proof (cases "sint w < 0")
  case True
  then have "nat (- sint w) \<le> 9223372036854775808"
    using sint_bounds64 [of w] by simp
  with True show ?thesis by (simp add: FormatInt_def ParseInt_minus)
next
  case False
  then have "nat (sint w) < 9223372036854775808"
    using sint_bounds64 [of w] by simp
  with False show ?thesis by (simp add: FormatInt_def ParseInt_show_nat)
qed

lemma FormatInt_nonempty [simp]: "FormatInt w \<noteq> []"
  by (simp add: FormatInt_def show_nat_digits)

lemma last_show_nat: "is_digit (last (show_nat n))"
  using show_nat_digits [of n] by (simp add: list_all_iff)

lemma last_FormatInt: "is_digit (last (FormatInt w))"
  by (simp add: FormatInt_def show_nat_digits last_show_nat)

lemma FormatInt_chars: "c \<in> set (FormatInt w) \<Longrightarrow> is_digit c \<or> c = CHR ''-''"
proof -
  have "is_digit c" if "c \<in> set (show_nat n)" for n
    using show_nat_digits [of n] that by (simp add: list_all_iff)
  then show "c \<in> set (FormatInt w) \<Longrightarrow> is_digit c \<or> c = CHR ''-''"
    by (auto simp: FormatInt_def split: if_splits)
qed

lemma plain_FormatInt: "\<forall>c \<in> set (FormatInt w). plain c"
proof
  fix c
  assume "c \<in> set (FormatInt w)"
  moreover have "plain CHR ''-''" by (simp add: plain_def space1_def)
  ultimately show "plain c" using FormatInt_chars [of c w] is_digit_plain by blast
qed

lemma FormatInt_no_comma: "CHR '','' \<notin> set (FormatInt w)"
  using FormatInt_chars [of "CHR '',''" w] by (auto simp: is_digit_def)

section \<open>Floating point\<close>

text \<open>
  A binary64 number: \<open>Fin neg m e\<close> stands for \<open>m * 2 ^ e\<close>, negated when \<open>neg\<close>.
\<close>

datatype float64 = Fin (neg: bool) (mant: nat) (expo: int) | Inf bool | NaN

text \<open>\<open>scale num den e\<close> is \<open>num / den / 2 ^ e\<close> as a fraction.\<close>

definition scale :: "nat \<Rightarrow> nat \<Rightarrow> int \<Rightarrow> nat \<times> nat" where
  "scale num den e =
     (if 0 \<le> e then (num, den * 2 ^ nat e) else (num * 2 ^ nat (- e), den))"

definition round_half_even :: "nat \<Rightarrow> nat \<Rightarrow> nat" where
  "round_half_even num den =
     (let q = num div den; r = num mod den in
      if 2 * r < den then q
      else if den < 2 * r then q + 1
      else if even q then q else q + 1)"

fun bit_length :: "nat \<Rightarrow> nat" where
  "bit_length n = (if n = 0 then 0 else Suc (bit_length (n div 2)))"

declare bit_length.simps [simp del]

text \<open>
  The binary64 number nearest to \<open>num / den\<close>, ties to even; the exponent is the one that
  leaves 53 bits, or the smallest one. \<open>None\<close> is an overflow, which \<open>ParseFloat\<close> reports
  as a range error.
\<close>

definition round64 :: "nat \<Rightarrow> nat \<Rightarrow> (nat \<times> int) option" where
  "round64 num den =
     (if num = 0 then Some (0, 0)
      else
       (let k = int (bit_length num) - int (bit_length den);
            (n1, d1) = scale num den k;
            e = max (if n1 < d1 then k - 53 else k - 52) (- 1074);
            (n2, d2) = scale num den e;
            m = round_half_even n2 d2
        in if 971 < e \<or> e = 971 \<and> m = 2 ^ 53 then None else Some (m, e)))"

definition hex_val :: "char \<Rightarrow> nat option" where
  "hex_val c =
     (let n = (of_char c :: nat) in
      if 48 \<le> n \<and> n \<le> 57 then Some (n - 48)
      else if 97 \<le> n \<and> n \<le> 102 then Some (n - 87)
      else if 65 \<le> n \<and> n \<le> 70 then Some (n - 55)
      else None)"

definition base_digit :: "nat \<Rightarrow> char \<Rightarrow> nat option" where
  "base_digit base c =
     (if is_digit c then Some (digit_val c) else if base = 16 then hex_val c else None)"

text \<open>
  The state of the digit loop: the digits' value, their number, the number of them before
  the dot, whether a dot, a digit, an underscore was seen.
\<close>

record mant_state =
  m_val :: nat
  m_nd :: nat
  m_dp :: nat
  m_dot :: bool
  m_digits :: bool
  m_under :: bool

fun read_mant :: "nat \<Rightarrow> mant_state \<Rightarrow> string \<Rightarrow> mant_state \<times> string" where
  "read_mant base st [] = (st, [])"
| "read_mant base st (c # s) =
     (if c = CHR ''_'' then read_mant base (st\<lparr>m_under := True\<rparr>) s
      else if c = CHR ''.'' then
        (if m_dot st then (st, c # s)
         else read_mant base (st\<lparr>m_dot := True, m_dp := m_nd st\<rparr>) s)
      else case base_digit base c of
        None \<Rightarrow> (st, c # s)
      | Some d \<Rightarrow>
          read_mant base
            (st\<lparr>m_val := base * m_val st + d, m_nd := Suc (m_nd st), m_digits := True\<rparr>) s)"

text \<open>The digits of the exponent; it stops growing at ten thousand. The flag is for underscores.\<close>

fun read_exp :: "nat \<Rightarrow> bool \<Rightarrow> string \<Rightarrow> nat \<times> bool \<times> string" where
  "read_exp e u [] = (e, u, [])"
| "read_exp e u (c # s) =
     (if c = CHR ''_'' then read_exp e True s
      else if is_digit c then read_exp (if e < 10000 then 10 * e + digit_val c else e) u s
      else (e, u, c # s))"

text \<open>The rule for underscores between digits; \<open>saw\<close> is the class of the last character.\<close>

datatype saw = Saw_start | Saw_digit | Saw_under | Saw_other

fun underscore_loop :: "bool \<Rightarrow> saw \<Rightarrow> string \<Rightarrow> bool" where
  "underscore_loop hex w [] = (w \<noteq> Saw_under)"
| "underscore_loop hex w (c # s) =
     (if is_digit c \<or> hex \<and> hex_val c \<noteq> None then underscore_loop hex Saw_digit s
      else if c = CHR ''_'' then (w = Saw_digit \<and> underscore_loop hex Saw_under s)
      else if w = Saw_under then False
      else underscore_loop hex Saw_other s)"

definition drop_sign :: "string \<Rightarrow> bool \<times> string" where
  "drop_sign s =
     (case s of [] \<Rightarrow> (False, [])
      | c # t \<Rightarrow> if c = CHR ''+'' then (False, t) else if c = CHR ''-'' then (True, t) else (False, s))"

definition underscoreOK :: "string \<Rightarrow> bool" where
  "underscoreOK s0 =
     (let s = snd (drop_sign s0) in
      case s of
        c # d # t \<Rightarrow>
          if c = CHR ''0'' \<and> lower1 d \<in> {CHR ''b'', CHR ''o'', CHR ''x''}
          then underscore_loop (lower1 d = CHR ''x'') Saw_digit t
          else underscore_loop False Saw_start s
      | _ \<Rightarrow> underscore_loop False Saw_start s)"

definition special_float :: "string \<Rightarrow> float64 option" where
  "special_float s =
     (let (ng, t) = drop_sign s; l = map lower1 t in
      if l = ''inf'' \<or> l = ''infinity'' then Some (Inf ng)
      else if map lower1 s = ''nan'' then Some NaN
      else None)"

text \<open>\<open>num * base ^ x\<close> rounded, for a power of ten or of two.\<close>

definition round_pow :: "nat \<Rightarrow> nat \<Rightarrow> int \<Rightarrow> (nat \<times> int) option" where
  "round_pow base num x =
     (if 0 \<le> x then round64 (num * base ^ nat x) 1 else round64 num (base ^ nat (- x)))"

text \<open>
  The exponent part after the digits: the exponent, whether it holds an underscore and what
  is left. A hexadecimal number must have one.
\<close>

definition read_exponent :: "bool \<Rightarrow> string \<Rightarrow> (int \<times> bool \<times> string) option" where
  "read_exponent hex rest =
     (if rest \<noteq> [] \<and> lower1 (hd rest) = (if hex then CHR ''p'' else CHR ''e'') then
        (let (eneg, q) = drop_sign (tl rest);
             (e, u, q') = read_exp 0 False q
         in if q = [] \<or> \<not> is_digit (hd q) then None
            else Some (if eneg then - int e else int e, u, q'))
      else if hex then None
      else Some (0, False, rest))"

definition is_hex :: "string \<Rightarrow> bool" where
  "is_hex t = (2 < length t \<and> t ! 0 = CHR ''0'' \<and> lower1 (t ! 1) = CHR ''x'')"

definition mant_start :: mant_state where
  "mant_start =
     \<lparr>m_val = 0, m_nd = 0, m_dp = 0, m_dot = False, m_digits = False, m_under = False\<rparr>"

definition ParseFloat :: "string \<Rightarrow> float64 option" where
  "ParseFloat s =
     (case special_float s of
        Some f \<Rightarrow> Some f
      | None \<Rightarrow>
          (let (ng, t) = drop_sign s;
               hex = is_hex t;
               (st, rest) =
                 read_mant (if hex then 16 else 10) mant_start (if hex then drop 2 t else t);
               dp = int (if m_dot st then m_dp st else m_nd st) - int (m_nd st)
           in case read_exponent hex rest of
                None \<Rightarrow> None
              | Some (e, u, q) \<Rightarrow>
                  if \<not> m_digits st \<or> q \<noteq> [] \<or> (m_under st \<or> u) \<and> \<not> underscoreOK s then None
                  else map_option (\<lambda>(m, x). Fin ng m x)
                    (if hex then round_pow 2 (m_val st) (4 * dp + e)
                     else round_pow 10 (m_val st) (dp + e))))"

text \<open>Multiplication by \<open>2 ^ k\<close>, exact but for overflow to infinity.\<close>

fun mul_pow2 :: "float64 \<Rightarrow> nat \<Rightarrow> float64" where
  "mul_pow2 (Fin ng m e) k =
     (if m \<noteq> 0 \<and> 1024 < int (bit_length m) + e + int k then Inf ng else Fin ng m (e + int k))"
| "mul_pow2 f k = f"

text \<open>
  \<open>int64(f)\<close> truncates; a number that does not fit, an infinity and NaN become the
  smallest integer, as the amd64 instruction \<open>CVTTSD2SQ\<close> has it.
\<close>

fun trunc_mag :: "nat \<Rightarrow> int \<Rightarrow> nat" where
  "trunc_mag m e = (if 0 \<le> e then m * 2 ^ nat e else m div 2 ^ nat (- e))"

fun float_to_int :: "float64 \<Rightarrow> go_int" where
  "float_to_int (Fin ng m e) =
     (let t = (if ng then - int (trunc_mag m e) else int (trunc_mag m e)) in
      if - 9223372036854775808 \<le> t \<and> t < 9223372036854775808 then word_of_int t
      else word_of_int (- 9223372036854775808))"
| "float_to_int _ = word_of_int (- 9223372036854775808)"

end
