(* ===== verification/Usage.thy ===== *)
theory Usage imports Strconv begin

text \<open>
  \<open>internal/usage/usage.go\<close>: sizes, disk lines and the resources of one guest config. A
  config is a Go map from keys to values; \<open>scan_disk\<close> is the body of the loop over it, and
  \<open>sized_disks\<close> and \<open>unused_disks\<close> say what the loop adds up.
\<close>

section \<open>Data\<close>

record usage =
  u_Cores :: go_int
  u_MemoryMiB :: go_int
  u_Instances :: go_int
  u_DiskBytes :: disks

record unused_ref =
  ur_Storage :: string
  ur_Volid :: string

record resources =
  rs_Cores :: go_int
  rs_MemoryMiB :: go_int
  rs_Disks :: disks
  rs_Unused :: "unused_ref list"

text \<open>The five named results of \<open>ParseDisk\<close>.\<close>

record disk_spec =
  ds_storage :: string
  ds_size :: go_int
  ds_hasSize :: bool
  ds_cdrom :: bool
  ds_volid :: string

section \<open>Parsing\<close>

definition atoiDefault :: "string \<Rightarrow> go_int \<Rightarrow> go_int" where
  "atoiDefault s def =
     (if s = [] then def else case Atoi (TrimSpace s) of Some n \<Rightarrow> n | None \<Rightarrow> def)"

text \<open>The binary suffixes, as the power of two they stand for.\<close>

definition size_suffix :: "char \<Rightarrow> nat option" where
  "size_suffix c =
     (if c = CHR ''k'' \<or> c = CHR ''K'' then Some 10
      else if c = CHR ''m'' \<or> c = CHR ''M'' then Some 20
      else if c = CHR ''g'' \<or> c = CHR ''G'' then Some 30
      else if c = CHR ''t'' \<or> c = CHR ''T'' then Some 40
      else if c = CHR ''p'' \<or> c = CHR ''P'' then Some 50
      else None)"

definition ParseSize :: "string \<Rightarrow> go_int option" where
  "ParseSize s0 =
     (let s = TrimSpace s0 in
      if s = [] then None
      else
       (let (k, b) = (case size_suffix (last s) of Some k \<Rightarrow> (k, butlast s) | None \<Rightarrow> (0, s)) in
        case ParseInt b of
          Some n \<Rightarrow> Some (n * 2 ^ k)
        | None \<Rightarrow>
            (case ParseFloat b of
               Some f \<Rightarrow> Some (float_to_int (mul_pow2 f k))
             | None \<Rightarrow> None)))"

definition no_disk :: disk_spec where
  "no_disk = \<lparr>ds_storage = [], ds_size = 0, ds_hasSize = False, ds_cdrom = False, ds_volid = []\<rparr>"

definition disk_option :: "string \<Rightarrow> disk_spec \<Rightarrow> disk_spec" where
  "disk_option f0 d =
     (let f = TrimSpace f0;
          d1 = (if f = ''media=cdrom'' then d\<lparr>ds_cdrom := True\<rparr> else d)
      in case CutPrefix f ''size='' of
           None \<Rightarrow> d1
         | Some s \<Rightarrow>
             (case ParseSize s of
                None \<Rightarrow> d1
              | Some n \<Rightarrow> d1\<lparr>ds_size := n, ds_hasSize := True\<rparr>))"

definition ParseDisk :: "string \<Rightarrow> disk_spec" where
  "ParseDisk v =
     (let fields = Split v CHR '',''; first = TrimSpace (hd fields) in
      if first = [] \<or> first = ''none'' then no_disk
      else
       (let (st, _, ok) = Cut first CHR '':'' in
        if \<not> ok \<or> st = [] then no_disk
        else fold disk_option (tl fields) (no_disk\<lparr>ds_storage := st, ds_volid := first\<rparr>)))"

definition diskPrefixes :: "string list" where
  "diskPrefixes = [''scsi'', ''virtio'', ''sata'', ''ide'', ''mp'', ''unused'']"

definition IsDiskKey :: "string \<Rightarrow> bool" where
  "IsDiskKey k =
     (if k = ''rootfs'' \<or> k = ''efidisk0'' \<or> k = ''tpmstate0'' then True
      else list_ex (\<lambda>p. case CutPrefix k p of Some rest \<Rightarrow> allDigits rest | None \<Rightarrow> False) diskPrefixes)"

section \<open>The resources of a guest\<close>

definition guest_cores :: "string \<Rightarrow> params \<Rightarrow> go_int" where
  "guest_cores kind cfg =
     (if kind = ''qemu'' then
        atoiDefault (str_at cfg ''sockets'') 1 * atoiDefault (str_at cfg ''cores'') 1
      else atoiDefault (str_at cfg ''cores'') 0)"

definition guest_memory :: "params \<Rightarrow> go_int" where
  "guest_memory cfg = atoiDefault (str_at cfg ''memory'') 512"

fun scan_disk :: "string \<times> string \<Rightarrow> resources \<Rightarrow> resources" where
  "scan_disk (k, v) r =
     (if \<not> IsDiskKey k then r
      else
       (let d = ParseDisk v in
        if ds_cdrom d \<or> ds_storage d = [] then r
        else if ds_hasSize d then r\<lparr>rs_Disks := add_at (ds_storage d) (ds_size d) (rs_Disks r)\<rparr>
        else if ds_volid d \<noteq> [] then
          r\<lparr>rs_Unused := rs_Unused r @ [\<lparr>ur_Storage = ds_storage d, ur_Volid = ds_volid d\<rparr>]\<rparr>
        else r))"

definition GuestResources :: "string \<Rightarrow> params \<Rightarrow> resources" where
  "GuestResources kind cfg =
     fold scan_disk cfg
       \<lparr>rs_Cores = guest_cores kind cfg, rs_MemoryMiB = guest_memory cfg, rs_Disks = [], rs_Unused = []\<rparr>"

text \<open>\<open>for st, b := range src { dst[st] += b }\<close>\<close>

definition add_disks :: "disks \<Rightarrow> disks \<Rightarrow> disks" where
  "add_disks src dst = fold (\<lambda>(st, b). add_at st b) src dst"

definition ConfigUsage :: "string \<Rightarrow> params \<Rightarrow> usage" where
  "ConfigUsage kind cfg =
     (let r = GuestResources kind cfg in
      \<lparr>u_Cores = rs_Cores r, u_MemoryMiB = rs_MemoryMiB r, u_Instances = 1,
       u_DiskBytes = add_disks (rs_Disks r) []\<rparr>)"

definition DiskGiB :: "usage \<Rightarrow> disks" where
  "DiskGiB u =
     fold (\<lambda>(st, b). map_put st (go_div (b + 2 ^ 30 - 1) (2 ^ 30))) (u_DiskBytes u) []"

section \<open>What the disk loop adds up\<close>

fun sized_disk :: "string \<times> string \<Rightarrow> (string \<times> go_int) list" where
  "sized_disk (k, v) =
     (let d = ParseDisk v in
      if IsDiskKey k \<and> \<not> ds_cdrom d \<and> ds_storage d \<noteq> [] \<and> ds_hasSize d
      then [(ds_storage d, ds_size d)] else [])"

fun unused_disk :: "string \<times> string \<Rightarrow> unused_ref list" where
  "unused_disk (k, v) =
     (let d = ParseDisk v in
      if IsDiskKey k \<and> \<not> ds_cdrom d \<and> ds_storage d \<noteq> [] \<and> \<not> ds_hasSize d \<and> ds_volid d \<noteq> []
      then [\<lparr>ur_Storage = ds_storage d, ur_Volid = ds_volid d\<rparr>] else [])"

definition sized_disks :: "params \<Rightarrow> (string \<times> go_int) list" where
  "sized_disks cfg = concat (map sized_disk cfg)"

definition unused_disks :: "params \<Rightarrow> unused_ref list" where
  "unused_disks cfg = concat (map unused_disk cfg)"

text \<open>The bytes a list of sized disks puts on a storage.\<close>

definition bytes_on :: "string \<Rightarrow> (string \<times> go_int) list \<Rightarrow> go_int" where
  "bytes_on st ps = sum_list (map snd (filter (\<lambda>p. fst p = st) ps))"

lemma fold_scan_disk:
  "fold scan_disk cfg r =
    r\<lparr>rs_Disks := fold (\<lambda>(st, b). add_at st b) (sized_disks cfg) (rs_Disks r),
      rs_Unused := rs_Unused r @ unused_disks cfg\<rparr>"
proof (induction cfg arbitrary: r)
  case Nil
  then show ?case by (simp add: sized_disks_def unused_disks_def)
next
  case (Cons p cfg)
  obtain k v where p: "p = (k, v)" by fastforce
  have "scan_disk (k, v) r =
      r\<lparr>rs_Disks := fold (\<lambda>(st, b). add_at st b) (sized_disk (k, v)) (rs_Disks r),
        rs_Unused := rs_Unused r @ unused_disk (k, v)\<rparr>"
    by (auto simp: Let_def)
  with Cons p show ?case by (simp add: sized_disks_def unused_disks_def)
qed

lemma GuestResources_parts:
  "rs_Cores (GuestResources kind cfg) = guest_cores kind cfg"
  "rs_MemoryMiB (GuestResources kind cfg) = guest_memory cfg"
  "rs_Disks (GuestResources kind cfg) = fold (\<lambda>(st, b). add_at st b) (sized_disks cfg) []"
  "rs_Unused (GuestResources kind cfg) = unused_disks cfg"
  by (simp_all add: GuestResources_def fold_scan_disk)

lemma GuestResources_disks_wf: "map_wf (rs_Disks (GuestResources kind cfg))"
  by (simp add: GuestResources_parts gc.wf_add_all)

lemma GuestResources_disk_at: "int_at (rs_Disks (GuestResources kind cfg)) st = bytes_on st (sized_disks cfg)"
  by (simp add: GuestResources_parts gc.at_add_all bytes_on_def)

lemma bytes_on_map:
  assumes "map_wf m"
  shows "bytes_on st m = int_at m st"
  using assms
proof (induction m)
  case Nil
  then show ?case by (simp add: bytes_on_def)
next
  case (Cons p m)
  obtain k v where p: "p = (k, v)" by fastforce
  have "filter (\<lambda>p. fst p = k) m = []" if "\<not> has_key m k"
    using that by (auto simp: has_key_fst filter_empty_conv)
  then have "bytes_on k m = 0" if "\<not> has_key m k"
    using that by (simp add: bytes_on_def)
  with Cons p show ?case by (auto simp: bytes_on_def int_at_def)
qed

lemma add_disks_at:
  assumes "map_wf src"
  shows "int_at (add_disks src dst) st = int_at dst st + int_at src st"
  using bytes_on_map [OF assms, of st] by (simp add: add_disks_def gc.at_add_all bytes_on_def)

lemma add_disks_wf: "map_wf dst \<Longrightarrow> map_wf (add_disks src dst)"
  by (simp add: add_disks_def gc.wf_add_all)

lemma ConfigUsage_parts:
  "u_Cores (ConfigUsage kind cfg) = guest_cores kind cfg"
  "u_MemoryMiB (ConfigUsage kind cfg) = guest_memory cfg"
  "u_Instances (ConfigUsage kind cfg) = 1"
  "int_at (u_DiskBytes (ConfigUsage kind cfg)) st = bytes_on st (sized_disks cfg)"
  "map_wf (u_DiskBytes (ConfigUsage kind cfg))"
  by (simp_all add: ConfigUsage_def Let_def GuestResources_parts(1,2) add_disks_at
      GuestResources_disks_wf GuestResources_disk_at add_disks_wf)

lemma size_suffix_plain:
  assumes "size_suffix c = Some k"
  shows "plain c \<and> \<not> is_digit c"
proof -
  have "size_suffix c = None" if "c \<notin> set ''kKmMgGtTpP''"
    using that by (simp add: size_suffix_def)
  with assms have "c \<in> set ''kKmMgGtTpP''" by fastforce
  moreover have "\<forall>c \<in> set ''kKmMgGtTpP''. plain c \<and> \<not> is_digit c"
    by (simp add: plain_def space1_def is_digit_def)
  ultimately show ?thesis by blast
qed

lemma hd_show_nat: "is_digit (hd (show_nat n))"
  using show_nat_digits [of n] by (cases "show_nat n") auto

lemma ParseSize_suffix:
  assumes "size_suffix c = Some k" and "n < 9223372036854775808"
  shows "ParseSize (show_nat n @ [c]) = Some (word_of_int (int n) * 2 ^ k)"
proof -
  have "TrimSpace (show_nat n @ [c]) = show_nat n @ [c]"
    using size_suffix_plain [OF assms(1)] hd_show_nat [of n] show_nat_digits [of n]
    by (intro TrimSpace_plain) (auto simp: is_digit_plain hd_append)
  with assms show ?thesis by (simp add: ParseSize_def ParseInt_show_nat)
qed

lemma size_suffix_digit: "is_digit c \<Longrightarrow> size_suffix c = None"
  using size_suffix_plain [of c] by (cases "size_suffix c") auto

lemma word_times_pow2: "(word_of_int i :: go_int) * 2 ^ k = word_of_int (i * 2 ^ k)"
  by simp

text \<open>
  C40. A whole number of units of a binary suffix parses to that many bytes, as long as the
  product fits in 63 bits.
\<close>

theorem ParseSize_units:
  assumes "size_suffix c = Some k" and "int n * 2 ^ k < 9223372036854775808"
  shows "\<exists>w. ParseSize (show_nat n @ [c]) = Some w \<and> sint w = int n * 2 ^ k"
proof -
  have "int n * 1 \<le> int n * 2 ^ k" by (intro mult_left_mono) simp_all
  with assms(2) have "n < 9223372036854775808" by linarith
  moreover have "sint (word_of_int (int n * 2 ^ k) :: go_int) = int n * 2 ^ k"
    using assms(2) by (intro sint_of_int_in_range) (auto intro: order_trans [OF _ mult_nonneg_nonneg])
  ultimately show ?thesis
    using ParseSize_suffix [OF assms(1), of n] by (simp add: word_times_pow2)
qed

theorem ParseSize_units_witness:
  "\<exists>w. ParseSize ''32G'' = Some w \<and> sint w = 34359738368"
proof -
  have "show_nat 32 = ''32''" by code_simp
  then show ?thesis using ParseSize_units [of "CHR ''G''" 30 32] by (simp add: size_suffix_def)
qed

lemma ParseSize_of_int: "ParseSize (FormatInt w) = Some w"
  using plain_FormatInt [of w] last_FormatInt [of w]
  by (simp add: ParseSize_def TrimSpace_all_plain size_suffix_digit ParseInt_FormatInt)

text \<open>A plain byte count, printed in decimal, parses back to the same 64-bit value, negative ones included.\<close>

theorem ParseSize_FormatInt: "ParseSize (FormatInt w) = Some w"
  by (rule ParseSize_of_int)

lemma ParseSize_overflow: "ParseSize ''8192P'' = Some (- (2 ^ 63)) \<and> ParseSize ''16384P'' = Some 0"
proof -
  have "show_nat 8192 = ''8192''" and "show_nat 16384 = ''16384''" by code_simp+
  then show ?thesis
    using ParseSize_suffix [of "CHR ''P''" 50 8192] ParseSize_suffix [of "CHR ''P''" 50 16384]
    by (simp add: size_suffix_def)
qed

section \<open>Order of iteration\<close>

lemma mset_concat_map: "mset xs = mset ys \<Longrightarrow> mset (concat (map f xs)) = mset (concat (map f ys))"
proof -
  assume "mset xs = mset ys"
  then have "(\<Sum>x \<in># mset xs. mset (f x)) = (\<Sum>x \<in># mset ys. mset (f x))" by simp
  then show ?thesis by (simp add: mset_concat sum_mset_sum_list [symmetric] comp_def flip: mset_map)
qed

lemma bytes_on_append: "bytes_on st (xs @ ys) = bytes_on st xs + bytes_on st ys"
  by (simp add: bytes_on_def)

lemma bytes_on_perm: "mset ps = mset qs \<Longrightarrow> bytes_on st ps = bytes_on st qs"
  using gc.at_add_all_order [of ps qs "[]" st] by (simp add: gc.at_add_all bytes_on_def)

lemma str_at_perm: "map_wf m \<Longrightarrow> mset m = mset m' \<Longrightarrow> str_at m k = str_at m' k"
  by (simp add: str_at_def map_get_perm)

text \<open>
  The resources of a guest do not depend on the order in which Go's map iteration visits
  its config: cores, memory and the bytes per storage are equal, and the unused volumes are
  the same up to order.
\<close>

theorem GuestResources_order:
  assumes "map_wf cfg" and "mset cfg = mset cfg'"
  shows "rs_Cores (GuestResources kind cfg) = rs_Cores (GuestResources kind cfg') \<and>
    rs_MemoryMiB (GuestResources kind cfg) = rs_MemoryMiB (GuestResources kind cfg') \<and>
    int_at (rs_Disks (GuestResources kind cfg)) st = int_at (rs_Disks (GuestResources kind cfg')) st \<and>
    mset (rs_Unused (GuestResources kind cfg)) = mset (rs_Unused (GuestResources kind cfg'))"
proof -
  have "bytes_on st (sized_disks cfg) = bytes_on st (sized_disks cfg')"
    unfolding sized_disks_def by (rule bytes_on_perm [OF mset_concat_map [OF assms(2)]])
  moreover have "mset (unused_disks cfg) = mset (unused_disks cfg')"
    unfolding unused_disks_def by (rule mset_concat_map [OF assms(2)])
  ultimately show ?thesis
    using str_at_perm [OF assms]
    by (simp add: GuestResources_disk_at) (simp add: GuestResources_parts guest_cores_def guest_memory_def)
qed

theorem GuestResources_order_witness:
  "rs_Cores (GuestResources ''lxc'' [(''cores'', ''2''), (''rootfs'', ''p:8'')]) =
   rs_Cores (GuestResources ''lxc'' (rev [(''cores'', ''2''), (''rootfs'', ''p:8'')]))"
proof -
  let ?cfg = "[(''cores'', ''2''), (''rootfs'', ''p:8'')]"
  have wf: "map_wf ?cfg" by simp
  have eq: "mset ?cfg = mset (rev ?cfg)" by (simp only: mset_rev)
  show ?thesis using GuestResources_order [OF wf eq] by (rule conjunct1)
qed

section \<open>Rounding up to GiB\<close>

lemma sint_ceil_gib:
  assumes "0 \<le> sint b" and "sint b \<le> 9223372035781033984"
  shows "sint (go_div (b + 2 ^ 30 - 1) (2 ^ 30)) = (sint b + 1073741823) div 1073741824"
proof -
  have eq: "b + 2 ^ 30 - 1 = b + 1073741823" by simp
  have "sint (b + 1073741823) = sint b + 1073741823"
    using assms sint_add_in_range [of b 1073741823] by simp
  then show ?thesis
    unfolding eq using assms sint_go_div_nonneg [of "b + 1073741823" "2 ^ 30"] by simp
qed

lemma ceil_gib_bounds:
  fixes x :: int
  shows "x \<le> (x + 1073741823) div 1073741824 * 1073741824"
    and "((x + 1073741823) div 1073741824 - 1) * 1073741824 < x"
proof -
  define q where "q = (x + 1073741823) div 1073741824"
  have "q * 1073741824 + (x + 1073741823) mod 1073741824 = x + 1073741823"
    unfolding q_def by (rule div_mult_mod_eq)
  moreover have "0 \<le> (x + 1073741823) mod 1073741824" "(x + 1073741823) mod 1073741824 < 1073741824"
    by simp_all
  ultimately have "x \<le> q * 1073741824" "(q - 1) * 1073741824 < x"
    by (simp_all only: left_diff_distrib mult_1)
  then show "x \<le> (x + 1073741823) div 1073741824 * 1073741824"
    and "((x + 1073741823) div 1073741824 - 1) * 1073741824 < x"
    by (simp_all only: q_def)
qed

lemma DiskGiB_get:
  assumes "map_wf (u_DiskBytes u)"
  shows "map_get (DiskGiB u) st =
    map_option (\<lambda>b. go_div (b + 2 ^ 30 - 1) (2 ^ 30)) (map_get (u_DiskBytes u) st)"
proof -
  let ?f = "\<lambda>b :: go_int. go_div (b + 2 ^ 30 - 1) (2 ^ 30)"
  let ?ps = "map (\<lambda>(st, b). (st, ?f b)) (u_DiskBytes u)"
  have "DiskGiB u = fold (\<lambda>(k, v). map_put k v) ?ps []"
    by (simp add: DiskGiB_def fold_map comp_def case_prod_beta')
  moreover have "distinct (map fst ?ps)"
    using assms by (simp add: map_wf_def comp_def case_prod_beta')
  moreover have "map_of ?ps st = map_option ?f (map_get (u_DiskBytes u) st)"
    unfolding map_get_def by (simp only: map_of_map comp_apply)
  ultimately show ?thesis by (simp add: gm.put_all_get split: option.split)
qed

text \<open>
  The reported GiB figure of a storage is the least whole number of GiB that holds its
  bytes: rounding is upwards, never by a whole unit.
\<close>

theorem DiskGiB_ceiling:
  assumes "map_wf (u_DiskBytes u)" and "map_get (u_DiskBytes u) st = Some b"
    and "0 \<le> sint b" and "sint b \<le> 9223372035781033984"
  shows "\<exists>g. map_get (DiskGiB u) st = Some g \<and>
    sint b \<le> sint g * 2 ^ 30 \<and> (sint g - 1) * 2 ^ 30 < sint b"
  using DiskGiB_get [OF assms(1), of st] sint_ceil_gib [OF assms(3,4)] ceil_gib_bounds [of "sint b"]
  by (simp add: assms(2))

theorem DiskGiB_ceiling_witness:
  "\<exists>g. map_get (DiskGiB \<lparr>u_Cores = 0, u_MemoryMiB = 0, u_Instances = 1,
      u_DiskBytes = [(''tank'', 34359738369)]\<rparr>) ''tank'' = Some g \<and>
    34359738369 \<le> sint g * 2 ^ 30 \<and> (sint g - 1) * 2 ^ 30 < 34359738369"
  using DiskGiB_ceiling [of "\<lparr>u_Cores = 0, u_MemoryMiB = 0, u_Instances = 1,
      u_DiskBytes = [(''tank'', 34359738369)]\<rparr>" "''tank''" 34359738369]
  by simp

section \<open>Disk lines\<close>

lemma fold_disk_option_keeps:
  "ds_storage (fold disk_option fs d) = ds_storage d \<and> ds_volid (fold disk_option fs d) = ds_volid d"
proof (induction fs arbitrary: d)
  case (Cons f fs)
  have "ds_storage (disk_option f d) = ds_storage d \<and> ds_volid (disk_option f d) = ds_volid d"
    by (simp add: disk_option_def Let_def split: option.split)
  with Cons show ?case by simp
qed simp

lemma disk_option_plain:
  assumes "plain (hd f)" and "plain (last f)" and "f \<noteq> []" and "f \<noteq> ''media=cdrom''"
    and "\<not> HasPrefix f ''size=''"
  shows "disk_option f d = d"
  using assms by (simp add: disk_option_def TrimSpace_plain HasPrefix_def)

lemma disk_option_size:
  assumes "\<forall>c \<in> set s. plain c" and "s \<noteq> []"
  shows "disk_option (''size='' @ s) d =
    (case ParseSize s of None \<Rightarrow> d | Some n \<Rightarrow> d\<lparr>ds_size := n, ds_hasSize := True\<rparr>)"
proof -
  have "plain (hd (''size='' @ s))" by (simp add: plain_def space1_def)
  moreover have "plain (last (''size='' @ s))" using assms by simp
  ultimately have "TrimSpace (''size='' @ s) = ''size='' @ s" by (intro TrimSpace_plain) simp_all
  then show ?thesis by (simp add: disk_option_def CutPrefix_append [of "''size=''", simplified])
qed

lemma ParseDisk_of_line:
  assumes "st \<noteq> []" and "\<forall>c \<in> set (st @ vol). plain c \<and> c \<noteq> CHR '',''" and "CHR '':'' \<notin> set st"
  shows "ParseDisk (st @ '':'' @ vol @ '',size='' @ FormatInt n) =
    \<lparr>ds_storage = st, ds_size = n, ds_hasSize = True, ds_cdrom = False, ds_volid = st @ '':'' @ vol\<rparr>"
proof -
  let ?first = "st @ '':'' @ vol"
  have colon: "plain CHR '':''" by (simp add: plain_def space1_def)
  have fmt: "CHR '','' \<notin> set (''size='' @ FormatInt n)"
    using FormatInt_no_comma [of n] by simp
  have "Split (?first @ CHR '','' # ''size='' @ FormatInt n) CHR '','' = [?first, ''size='' @ FormatInt n]"
    using assms(2) fmt by (subst Split_append) (auto simp: Split_notin)
  moreover have "TrimSpace ?first = ?first"
    using assms(2) colon by (intro TrimSpace_all_plain) auto
  moreover have "Cut ?first CHR '':'' = (st, vol, True)"
    using assms(3) Cut_append by simp
  moreover have "?first \<noteq> ''none''"
  proof
    assume "?first = ''none''"
    then have "CHR '':'' \<in> set ''none''" by (metis in_set_conv_decomp append.assoc append_Cons append_Nil)
    then show False by simp
  qed
  ultimately show ?thesis
    using assms(1) plain_FormatInt [of n]
    by (simp add: ParseDisk_def disk_option_size [of "FormatInt n", simplified] ParseSize_of_int no_disk_def)
qed

text \<open>
  A config line \<open>storage:volume,size=N\<close> is read back as that storage, that volume id and
  that many bytes, and is no CD drive.
\<close>

theorem ParseDisk_line:
  assumes "st \<noteq> []" and "\<forall>c \<in> set (st @ vol). plain c \<and> c \<noteq> CHR '',''" and "CHR '':'' \<notin> set st"
  shows "ParseDisk (st @ '':'' @ vol @ '',size='' @ FormatInt n) =
    \<lparr>ds_storage = st, ds_size = n, ds_hasSize = True, ds_cdrom = False, ds_volid = st @ '':'' @ vol\<rparr>"
  using assms by (rule ParseDisk_of_line)

theorem ParseDisk_line_witness:
  "ParseDisk (''local-lvm:vm-100-disk-0,size='' @ FormatInt 34359738368) =
    \<lparr>ds_storage = ''local-lvm'', ds_size = 34359738368, ds_hasSize = True, ds_cdrom = False,
      ds_volid = ''local-lvm:vm-100-disk-0''\<rparr>"
  using ParseDisk_line [of "''local-lvm''" "''vm-100-disk-0''" 34359738368]
  by (simp add: plain_def space1_def)

end
