(* ===== verification/Urlenc.thy ===== *)
theory Urlenc imports Strconv begin

text \<open>
  Go's package \<open>net/url\<close> as the program uses it: percent decoding and encoding, and the
  parsing of a form body.
\<close>

section \<open>Decoding\<close>

fun QueryUnescape :: "string \<Rightarrow> string option" where
  "QueryUnescape [] = Some []"
| "QueryUnescape (c # s) =
     (if c = CHR ''%'' then
        (case s of
           a # b # t \<Rightarrow>
             (case (hex_val a, hex_val b) of
                (Some x, Some y) \<Rightarrow> map_option (\<lambda>r. char_of (16 * x + y) # r) (QueryUnescape t)
              | _ \<Rightarrow> None)
         | _ \<Rightarrow> None)
      else map_option (\<lambda>r. (if c = CHR ''+'' then CHR '' '' else c) # r) (QueryUnescape s))"

section \<open>Encoding\<close>

definition unreserved :: "char \<Rightarrow> bool" where
  "unreserved c =
     (let n = (of_char c :: nat) in
      48 \<le> n \<and> n \<le> 57 \<or> 65 \<le> n \<and> n \<le> 90 \<or> 97 \<le> n \<and> n \<le> 122
      \<or> c = CHR ''-'' \<or> c = CHR ''_'' \<or> c = CHR ''.'' \<or> c = CHR ''~'')"

definition hex_digit :: "nat \<Rightarrow> char" where
  "hex_digit n = (if n < 10 then char_of (48 + n) else char_of (55 + n))"

definition percent :: "char \<Rightarrow> string" where
  "percent c = [CHR ''%'', hex_digit (of_char c div 16), hex_digit (of_char c mod 16)]"

definition QueryEscape :: "string \<Rightarrow> string" where
  "QueryEscape s =
     concat (map (\<lambda>c. if unreserved c then [c] else if c = CHR '' '' then ''+'' else percent c) s)"

definition PathEscape :: "string \<Rightarrow> string" where
  "PathEscape s =
     concat (map (\<lambda>c.
       if unreserved c \<or> c \<in> {CHR ''$'', CHR ''&'', CHR ''+'', CHR '':'', CHR ''='', CHR ''@''}
       then [c] else percent c) s)"

lemma hex_val_digit: "n < 16 \<Longrightarrow> hex_val (hex_digit n) = Some n"
  by (auto simp: hex_digit_def hex_val_def of_char_of Let_def)

lemma nibbles: "(of_char c :: nat) div 16 < 16" "(of_char c :: nat) mod 16 < 16"
  by (rule less_mult_imp_div_less) simp_all

lemma QueryUnescape_percent:
  "QueryUnescape (percent c @ s) = map_option (\<lambda>r. c # r) (QueryUnescape s)"
proof -
  have "char_of (16 * ((of_char c :: nat) div 16) + (of_char c :: nat) mod 16) = c"
    by simp
  with nibbles [of c] show ?thesis by (simp add: percent_def hex_val_digit)
qed

lemma unreserved_plain: "unreserved c \<Longrightarrow> c \<noteq> CHR ''%'' \<and> c \<noteq> CHR ''+''"
  by (auto simp: unreserved_def)

lemma QueryUnescape_Escape: "QueryUnescape (QueryEscape s) = Some s"
proof (induction s)
  case Nil
  then show ?case by (simp add: QueryEscape_def)
next
  case (Cons c s)
  have rec: "QueryEscape (c # s) =
      (if unreserved c then [c] else if c = CHR '' '' then ''+'' else percent c) @ QueryEscape s"
    by (simp add: QueryEscape_def)
  show ?case
    unfolding rec using Cons unreserved_plain [of c] by (auto simp: QueryUnescape_percent)
qed

lemma percent_no_slash: "CHR ''/'' \<notin> set (percent c)"
proof -
  have "hex_digit n \<noteq> CHR ''/''" if "n < 16" for n
    using hex_val_digit [OF that] by (auto simp: hex_val_def)
  from this [OF nibbles(1)] this [OF nibbles(2)] show ?thesis
    by (auto simp: percent_def dest: sym)
qed

text \<open>An escaped path segment stays one segment.\<close>

lemma PathEscape_no_slash: "CHR ''/'' \<notin> set (PathEscape s)"
  using percent_no_slash by (auto simp: PathEscape_def unreserved_def split: if_splits)

section \<open>Form bodies\<close>

text \<open>
  \<open>ParseQuery\<close> keeps every pair it can decode and reports the first error; \<open>Get\<close> returns
  the first value of a key. A part with a semicolon is an error, an empty part is skipped.
\<close>

definition query_pair :: "string \<Rightarrow> (string \<times> string) option" where
  "query_pair part =
     (let (k, v, _) = Cut part CHR ''='' in
      case QueryUnescape k of None \<Rightarrow> None
      | Some k' \<Rightarrow> map_option (Pair k') (QueryUnescape v))"

fun query_pairs :: "string list \<Rightarrow> (string \<times> string) list \<times> bool" where
  "query_pairs [] = ([], True)"
| "query_pairs (part # parts) =
     (let (ps, ok) = query_pairs parts in
      if CHR '';'' \<in> set part then (ps, False)
      else if part = [] then (ps, ok)
      else case query_pair part of None \<Rightarrow> (ps, False) | Some p \<Rightarrow> (p # ps, ok))"

text \<open>The pairs in the order of the body, or \<open>None\<close> when \<open>ParseQuery\<close> returns an error.\<close>

definition ParseQuery :: "string \<Rightarrow> (string \<times> string) list option" where
  "ParseQuery body = (let (ps, ok) = query_pairs (Split body CHR ''&'') in if ok then Some ps else None)"

text \<open>The values by key, the first of each key: what \<open>range\<close> and \<open>Get\<close> read.\<close>

fun first_values :: "(string \<times> string) list \<Rightarrow> params" where
  "first_values [] = []"
| "first_values ((k, v) # ps) = (k, v) # filter (\<lambda>p. fst p \<noteq> k) (first_values ps)"

lemma map_get_filter: "k \<noteq> k' \<Longrightarrow> map_get (filter (\<lambda>p. fst p \<noteq> k') m) k = map_get m k"
  by (induction m) auto

lemma first_values_get: "map_get (first_values ps) k = map_get ps k"
proof (induction ps rule: first_values.induct)
  case 1
  then show ?case by simp
next
  case (2 k' v ps)
  then show ?case by (simp add: map_get_filter)
qed

lemma first_values_wf: "map_wf (first_values ps)"
  by (induction ps rule: first_values.induct) (auto simp: map_wf_def distinct_map_filter)

end
