(* ===== verification/Httpreq.thy ===== *)
theory Httpreq imports Urlenc begin

text \<open>
  A request as \<open>net/http\<close> hands it to a handler: method, decoded path, headers (values per
  canonical name), body. A body is a stream: the bytes it yields, and whether reading then
  fails or reaches the end.
\<close>

record body =
  b_data :: string
  b_err :: bool

record request =
  rq_Method :: string
  rq_Path :: string
  rq_Header :: "(string, string list) gomap"
  rq_Body :: "body option"
  rq_ContentLength :: int
  rq_GetBody :: "string option"

text \<open>\<open>Header.Get\<close>: the first value, or the empty string.\<close>

definition Header_Get :: "(string, string list) gomap \<Rightarrow> string \<Rightarrow> string" where
  "Header_Get h k = (case map_get h k of Some (v # _) \<Rightarrow> v | _ \<Rightarrow> [])"

section \<open>Cookies\<close>

text \<open>
  \<open>Request.Cookie\<close>: the first cookie of that name with a valid value in the \<open>Cookie\<close> header
  lines.
\<close>

definition http_space :: "char \<Rightarrow> bool" where
  "http_space c = (c = CHR '' '' \<or> c = CHR 0x09 \<or> c = CHR 0x0A \<or> c = CHR 0x0D)"

definition TrimString :: "string \<Rightarrow> string" where
  "TrimString s = rev (dropWhile http_space (rev (dropWhile http_space s)))"

definition cookie_byte :: "char \<Rightarrow> bool" where
  "cookie_byte c =
     (let n = (of_char c :: nat) in 32 \<le> n \<and> n < 127 \<and> n \<noteq> 34 \<and> n \<noteq> 59 \<and> n \<noteq> 92)"

definition cookie_value :: "string \<Rightarrow> string option" where
  "cookie_value raw =
     (let v = (if 1 < length raw \<and> hd raw = char_of (34 :: nat) \<and> last raw = char_of (34 :: nat)
               then butlast (tl raw) else raw)
      in if list_all cookie_byte v then Some v else None)"

fun find_cookie :: "string \<Rightarrow> string list \<Rightarrow> string option" where
  "find_cookie name [] = None"
| "find_cookie name (p # parts) =
     (let part = TrimString p; (n, v, _) = Cut part CHR ''='' in
      if part = [] \<or> TrimString n \<noteq> name then find_cookie name parts
      else case cookie_value v of None \<Rightarrow> find_cookie name parts | Some x \<Rightarrow> Some x)"

definition Cookie :: "request \<Rightarrow> string \<Rightarrow> string option" where
  "Cookie r name =
     find_cookie name
       (concat (map (\<lambda>line. Split (TrimString line) CHR '';'')
         (case map_get (rq_Header r) ''Cookie'' of None \<Rightarrow> [] | Some ls \<Rightarrow> ls)))"

end
