(* ===== verification/Json.thy ===== *)
theory Json imports Strconv "HOL-Library.List_Lexorder" "HOL-Library.Char_ord" begin

text \<open>
  Go's package \<open>encoding/json\<close> as the program uses it: decoding of a text into values of the
  type \<open>any\<close> (invalid UTF-8 is replaced, the nesting depth is bounded, a number outside the
  range of binary64 is an error) and encoding of such values (keys sorted, HTML characters
  escaped). The parser runs on fuel; every call has consumed a byte before the next, so the
  length of the text is enough.
\<close>

datatype json =
    JNull
  | JBool bool
  | JNum string
  | JStr string
  | JArr "json list"
  | JObj "(string \<times> json) list"

section \<open>UTF-8\<close>

definition byte_in :: "nat \<Rightarrow> nat \<Rightarrow> char \<Rightarrow> bool" where
  "byte_in lo hi c = (lo \<le> of_char c \<and> of_char c \<le> hi)"

definition cont_byte :: "char \<Rightarrow> bool" where
  "cont_byte c = byte_in 128 191 c"

text \<open>The length of the valid encoding of more than one byte a string starts with, 0 if there is none.\<close>

definition multi_byte :: "string \<Rightarrow> nat" where
  "multi_byte s =
     (case s of
        a # b # t \<Rightarrow>
          if byte_in 194 223 a \<and> cont_byte b then 2
          else (case t of
             c # u \<Rightarrow>
               if (a = char_of (224 :: nat) \<and> byte_in 160 191 b
                   \<or> (byte_in 225 236 a \<or> byte_in 238 239 a) \<and> cont_byte b
                   \<or> a = char_of (237 :: nat) \<and> byte_in 128 159 b) \<and> cont_byte c then 3
               else (case u of
                  d # _ \<Rightarrow>
                    if (a = char_of (240 :: nat) \<and> byte_in 144 191 b
                        \<or> byte_in 241 243 a \<and> cont_byte b
                        \<or> a = char_of (244 :: nat) \<and> byte_in 128 143 b) \<and> cont_byte c \<and> cont_byte d then 4
                    else 0
                | [] \<Rightarrow> 0)
           | [] \<Rightarrow> 0)
      | _ \<Rightarrow> 0)"

definition encode_rune :: "nat \<Rightarrow> string" where
  "encode_rune r =
     (if r < 128 then [char_of r]
      else if r < 2048 then [char_of (192 + r div 64), char_of (128 + r mod 64)]
      else if r < 65536 then
        [char_of (224 + r div 4096), char_of (128 + r div 64 mod 64), char_of (128 + r mod 64)]
      else
        [char_of (240 + r div 262144), char_of (128 + r div 4096 mod 64),
         char_of (128 + r div 64 mod 64), char_of (128 + r mod 64)])"

definition replacement :: string where
  "replacement = [CHR 0xEF, CHR 0xBF, CHR 0xBD]"

section \<open>Strings\<close>

text \<open>Four hexadecimal digits.\<close>

definition getu4 :: "string \<Rightarrow> (nat \<times> string) option" where
  "getu4 s =
     (case s of
        a # b # c # d # t \<Rightarrow>
          (case (hex_val a, hex_val b, hex_val c, hex_val d) of
             (Some w, Some x, Some y, Some z) \<Rightarrow> Some (4096 * w + 256 * x + 16 * y + z, t)
           | _ \<Rightarrow> None)
      | _ \<Rightarrow> None)"

lemma getu4_length: "getu4 s = Some (n, t) \<Longrightarrow> length t < length s"
  by (auto simp: getu4_def split: list.splits option.splits)

text \<open>
  The low surrogate after \<open>\u\<close>, with the rest, if there is one.
\<close>

definition low_surrogate :: "string \<Rightarrow> (nat \<times> string) option" where
  "low_surrogate s =
     (case s of
        a # b # t \<Rightarrow>
          if a = char_of (92 :: nat) \<and> b = CHR ''u'' then
            (case getu4 t of
               Some (r, u) \<Rightarrow> if 56320 \<le> r \<and> r < 57344 then Some (r, u) else None
             | None \<Rightarrow> None)
          else None
      | _ \<Rightarrow> None)"

lemma low_surrogate_length: "low_surrogate s = Some (n, t) \<Longrightarrow> length t < length s"
  by (auto simp: low_surrogate_def dest: getu4_length split: list.splits option.splits if_splits)

definition simple_escape :: "char \<Rightarrow> char option" where
  "simple_escape c =
     (if c = char_of (34 :: nat) \<or> c = char_of (92 :: nat) \<or> c = CHR ''/'' then Some c
      else if c = CHR ''b'' then Some CHR 0x08
      else if c = CHR ''f'' then Some CHR 0x0C
      else if c = CHR ''n'' then Some CHR 0x0A
      else if c = CHR ''r'' then Some CHR 0x0D
      else if c = CHR ''t'' then Some CHR 0x09
      else None)"

text \<open>A string literal after its opening quote: its value and the text after the closing quote.\<close>

function (sequential) json_string :: "string \<Rightarrow> (string \<times> string) option" where
  "json_string [] = None"
| "json_string (c # s) =
     (if c = char_of (34 :: nat) then Some ([], s)
      else if c = char_of (92 :: nat) then
        (case s of
           [] \<Rightarrow> None
         | x # t \<Rightarrow>
             if x = CHR ''u'' then
               (case getu4 t of
                  None \<Rightarrow> None
                | Some (r, u) \<Rightarrow>
                    if 55296 \<le> r \<and> r < 57344 then
                      (case (if r < 56320 then low_surrogate u else None) of
                         Some (r2, u2) \<Rightarrow>
                           map_option (\<lambda>(v, w).
                               (encode_rune (65536 + (r - 55296) * 1024 + (r2 - 56320)) @ v, w))
                             (json_string u2)
                       | None \<Rightarrow> map_option (\<lambda>(v, w). (replacement @ v, w)) (json_string u))
                    else map_option (\<lambda>(v, w). (encode_rune r @ v, w)) (json_string u))
             else
               (case simple_escape x of
                  None \<Rightarrow> None
                | Some y \<Rightarrow> map_option (\<lambda>(v, w). (y # v, w)) (json_string t)))
      else if (of_char c :: nat) < 32 then None
      else if (of_char c :: nat) < 128 then map_option (\<lambda>(v, w). (c # v, w)) (json_string s)
      else
       (let k = multi_byte (c # s) in
        if k = 0 then map_option (\<lambda>(v, w). (replacement @ v, w)) (json_string s)
        else map_option (\<lambda>(v, w). (take k (c # s) @ v, w)) (json_string (drop (k - 1) s))))"
  by pat_completeness auto
termination
  by (relation "measure length")
    (auto dest!: getu4_length low_surrogate_length split: if_splits)

section \<open>Numbers\<close>

definition take_digits :: "string \<Rightarrow> string \<times> string" where
  "take_digits s = (takeWhile is_digit s, dropWhile is_digit s)"

text \<open>The text of a number and what follows it.\<close>

definition json_number :: "string \<Rightarrow> (string \<times> string) option" where
  "json_number s0 =
     (let (sign, s1) = (case s0 of c # t \<Rightarrow> if c = CHR ''-'' then (''-'', t) else ([], s0) | [] \<Rightarrow> ([], []));
          (ds, s2) = (case s1 of c # t \<Rightarrow> if c = CHR ''0'' then (''0'', t) else take_digits s1 | [] \<Rightarrow> ([], []));
          (frac, s3) = (case s2 of
             c # t \<Rightarrow> if c = CHR ''.'' then (let (fs, u) = take_digits t in (Some (''.'', fs), u)) else (None, s2)
           | [] \<Rightarrow> (None, []));
          (ex, s4) = (case s3 of
             c # t \<Rightarrow>
               if c = CHR ''e'' \<or> c = CHR ''E'' then
                 (let (sg, u) = (case t of
                        d # v \<Rightarrow> if d = CHR ''+'' \<or> d = CHR ''-'' then ([d], v) else ([], t)
                      | [] \<Rightarrow> ([], []));
                      (es, w) = take_digits u
                  in (Some (''e'' @ sg, es), w))
               else (None, s3)
           | [] \<Rightarrow> (None, []));
          part = (\<lambda>p. case p of None \<Rightarrow> Some [] | Some (pre, xs) \<Rightarrow> if xs = [] then None else Some (pre @ xs))
      in if ds = [] then None
         else case (part frac, part ex) of
           (Some f, Some x) \<Rightarrow> Some (sign @ ds @ f @ x, s4)
         | _ \<Rightarrow> None)"

section \<open>Values\<close>

definition json_space :: "char \<Rightarrow> bool" where
  "json_space c = (c = CHR '' '' \<or> c = CHR 0x09 \<or> c = CHR 0x0A \<or> c = CHR 0x0D)"

definition skip :: "string \<Rightarrow> string" where
  "skip s = dropWhile json_space s"

definition max_depth :: nat where
  "max_depth = 10000"

text \<open>
  The first argument is the fuel, the second the number of open arrays and objects.
  \<open>json_elems\<close> and \<open>json_members\<close> read from the first element up to the closing bracket.
\<close>

fun json_value :: "nat \<Rightarrow> nat \<Rightarrow> string \<Rightarrow> (json \<times> string) option"
  and json_elems :: "nat \<Rightarrow> nat \<Rightarrow> string \<Rightarrow> (json list \<times> string) option"
  and json_members :: "nat \<Rightarrow> nat \<Rightarrow> string \<Rightarrow> ((string \<times> json) list \<times> string) option"
where
  "json_value 0 d s = None"
| "json_value (Suc n) d s =
     (case skip s of
        [] \<Rightarrow> None
      | c # t \<Rightarrow>
          if c = CHR ''{'' then
            (if max_depth \<le> d then None
             else case skip t of
               [] \<Rightarrow> None
             | e # u \<Rightarrow>
                 if e = CHR ''}'' then Some (JObj [], u)
                 else map_option (\<lambda>(ms, r). (JObj ms, r)) (json_members n (Suc d) t))
          else if c = CHR ''['' then
            (if max_depth \<le> d then None
             else case skip t of
               [] \<Rightarrow> None
             | e # u \<Rightarrow>
                 if e = CHR '']'' then Some (JArr [], u)
                 else map_option (\<lambda>(xs, r). (JArr xs, r)) (json_elems n (Suc d) t))
          else if c = char_of (34 :: nat) then map_option (\<lambda>(v, r). (JStr v, r)) (json_string t)
          else (case CutPrefix (c # t) ''true'' of Some r \<Rightarrow> Some (JBool True, r) | None \<Rightarrow>
               (case CutPrefix (c # t) ''false'' of Some r \<Rightarrow> Some (JBool False, r) | None \<Rightarrow>
               (case CutPrefix (c # t) ''null'' of Some r \<Rightarrow> Some (JNull, r) | None \<Rightarrow>
               (case json_number (c # t) of
                  None \<Rightarrow> None
                | Some (txt, r) \<Rightarrow> Some (JNum txt, r))))))"
| "json_elems 0 d s = None"
| "json_elems (Suc n) d s =
     (case json_value n d s of
        None \<Rightarrow> None
      | Some (x, r) \<Rightarrow>
          (case skip r of
             [] \<Rightarrow> None
           | c # t \<Rightarrow>
               if c = CHR '','' then map_option (\<lambda>(xs, u). (x # xs, u)) (json_elems n d t)
               else if c = CHR '']'' then Some ([x], t) else None))"
| "json_members 0 d s = None"
| "json_members (Suc n) d s =
     (case skip s of
        [] \<Rightarrow> None
      | c # t \<Rightarrow>
          if c \<noteq> char_of (34 :: nat) then None
          else (case json_string t of
             None \<Rightarrow> None
           | Some (k, r) \<Rightarrow>
               (case skip r of
                  [] \<Rightarrow> None
                | e # u \<Rightarrow>
                    if e \<noteq> CHR '':'' then None
                    else (case json_value n d u of
                       None \<Rightarrow> None
                     | Some (x, v) \<Rightarrow>
                         (case skip v of
                            [] \<Rightarrow> None
                          | f # w \<Rightarrow>
                              if f = CHR '','' then map_option (\<lambda>(ms, z). ((k, x) # ms, z)) (json_members n d w)
                              else if f = CHR ''}'' then Some ([(k, x)], w) else None)))))"

definition json_parse :: "string \<Rightarrow> json option" where
  "json_parse s =
     (case json_value (Suc (length s)) 0 s of
        Some (v, r) \<Rightarrow> if skip r = [] then Some v else None
      | None \<Rightarrow> None)"

text \<open>
  Every number is in the range of binary64: the other texts are an error when they are decoded
  into an \<open>any\<close>.
\<close>

fun in_range :: "json \<Rightarrow> bool" where
  "in_range (JNum txt) = (ParseFloat txt \<noteq> None)"
| "in_range (JArr xs) = list_all in_range xs"
| "in_range (JObj ms) = list_all (\<lambda>(_, v). in_range v) ms"
| "in_range _ = True"

text \<open>
  A value decoded into a \<open>map[string]any\<close>: an object gives its members, the last of equal
  keys winning; \<open>null\<close> leaves the map empty; anything else is an error.
\<close>

fun any_map :: "json \<Rightarrow> (string, json) gomap option" where
  "any_map (JObj ms) =
     (if in_range (JObj ms) then Some (fold (\<lambda>(k, v). map_put k v) ms []) else None)"
| "any_map JNull = Some []"
| "any_map _ = None"

definition unmarshal_map :: "string \<Rightarrow> (string, json) gomap option" where
  "unmarshal_map s = (case json_parse s of Some v \<Rightarrow> any_map v | None \<Rightarrow> None)"

text \<open>Fields of a struct are matched by name, case folded (the long s and the Kelvin sign too).\<close>

fun fold_name :: "string \<Rightarrow> string" where
  "fold_name (a # b # c # s) =
     (if a = CHR 0xC5 \<and> b = CHR 0xBF then CHR ''S'' # fold_name (c # s)
      else if a = CHR 0xE2 \<and> b = CHR 0x84 \<and> c = CHR 0xAA then CHR ''K'' # fold_name s
      else upper1 a # fold_name (b # c # s))"
| "fold_name [a, b] = (if a = CHR 0xC5 \<and> b = CHR 0xBF then ''S'' else [upper1 a, upper1 b])"
| "fold_name [a] = [upper1 a]"
| "fold_name [] = []"

definition field :: "string \<Rightarrow> (string \<times> json) list \<Rightarrow> json list" where
  "field name ms = map snd (filter (\<lambda>p. fold_name (fst p) = fold_name name) ms)"

text \<open>
  The fields of type \<open>int\<close>, \<open>int64\<close> and \<open>string\<close>: the last value of the name that is not
  \<open>null\<close>, the zero value when there is none; a value of another type is an error.
\<close>

fun int_field :: "json list \<Rightarrow> go_int option" where
  "int_field vs =
     fold (\<lambda>v acc. case v of
         JNull \<Rightarrow> acc
       | JNum txt \<Rightarrow> (case (acc, ParseInt txt) of (Some _, Some n) \<Rightarrow> Some n | _ \<Rightarrow> None)
       | _ \<Rightarrow> None) vs (Some 0)"

fun str_field :: "json list \<Rightarrow> string option" where
  "str_field vs =
     fold (\<lambda>v acc. case v of
         JNull \<Rightarrow> acc
       | JStr s \<Rightarrow> (case acc of Some _ \<Rightarrow> Some s | None \<Rightarrow> None)
       | _ \<Rightarrow> None) vs (Some [])"

fun all_some :: "'a option list \<Rightarrow> 'a list option" where
  "all_some [] = Some []"
| "all_some (x # xs) =
     (case (x, all_some xs) of (Some y, Some ys) \<Rightarrow> Some (y # ys) | _ \<Rightarrow> None)"

text \<open>A slice of structs; a \<open>null\<close> is the empty slice, a \<open>null\<close> element the zero struct.\<close>

fun slice_of :: "((string \<times> json) list \<Rightarrow> 'a option) \<Rightarrow> json \<Rightarrow> 'a list option" where
  "slice_of f (JArr xs) =
     all_some (map (\<lambda>x. case x of JObj ms \<Rightarrow> f ms | JNull \<Rightarrow> f [] | _ \<Rightarrow> None) xs)"
| "slice_of f JNull = Some []"
| "slice_of f _ = None"

end
