(* ===== verification/Jsonout.thy ===== *)
theory Jsonout imports Json begin

text \<open>
  Writing JSON values: Go's \<open>strconv.FormatFloat\<close> with the shortest digits and
  \<open>json.Marshal\<close> of decoded values, and the facts about numbers both ways.
\<close>

section \<open>Numbers as text\<close>

text \<open>\<open>float64(i)\<close>, and Go's \<open>==\<close> on numbers.\<close>

definition float_of_int :: "go_int \<Rightarrow> float64" where
  "float_of_int w =
     (case round64 (nat \<bar>sint w\<bar>) 1 of
        Some (m, e) \<Rightarrow> Fin (sint w < 0) m e
      | None \<Rightarrow> Inf (sint w < 0))"

definition signed_mant :: "bool \<Rightarrow> nat \<Rightarrow> nat \<Rightarrow> int" where
  "signed_mant ng m k = (if ng then - int (m * 2 ^ k) else int (m * 2 ^ k))"

fun float_eq :: "float64 \<Rightarrow> float64 \<Rightarrow> bool" where
  "float_eq (Fin a m e) (Fin b n f) =
     (signed_mant a m (nat (e - min e f)) = signed_mant b n (nat (f - min e f)))"
| "float_eq (Inf a) (Inf b) = (a = b)"
| "float_eq _ _ = False"

text \<open>
  The shortest decimal that reads back as \<open>m * 2 ^ e\<close>: the digits \<open>D\<close> and the exponent \<open>x\<close>
  of \<open>D * 10 ^ x\<close>. With \<open>p\<close> the number of digits before the point, a candidate with \<open>nd\<close>
  digits has the exponent \<open>p - nd\<close>; the value is rounded down or up to it, to the nearer
  one when both read back. Seventeen digits are always enough.
\<close>

definition as_frac :: "nat \<Rightarrow> int \<Rightarrow> nat \<times> nat" where
  "as_frac m e = (if 0 \<le> e then (m * 2 ^ nat e, 1) else (m, 2 ^ nat (- e)))"

definition over_pow10 :: "nat \<times> nat \<Rightarrow> int \<Rightarrow> nat \<times> nat" where
  "over_pow10 q x =
     (if 0 \<le> x then (fst q, snd q * 10 ^ nat x) else (fst q * 10 ^ nat (- x), snd q))"

definition point_pos :: "nat \<times> nat \<Rightarrow> int" where
  "point_pos q =
     (let g = int (length (show_nat (fst q))) - int (length (show_nat (snd q)));
          (n, d) = over_pow10 q g
      in if n < d then g else g + 1)"

definition reads_back :: "nat \<Rightarrow> int \<Rightarrow> nat \<Rightarrow> int \<Rightarrow> bool" where
  "reads_back m e D x =
     (case round_pow 10 D x of
        Some (m', e') \<Rightarrow> float_eq (Fin False m' e') (Fin False m e)
      | None \<Rightarrow> False)"

definition candidate :: "nat \<Rightarrow> int \<Rightarrow> nat \<Rightarrow> (nat \<times> int) option" where
  "candidate m e nd =
     (let q = as_frac m e; x = point_pos q - int nd; (n, d) = over_pow10 q x; D = n div d;
          down = reads_back m e D x; up = reads_back m e (D + 1) x
      in if down \<and> up then Some (round_half_even n d, x)
         else if down then Some (D, x)
         else if up then Some (D + 1, x)
         else None)"

definition shortest :: "nat \<Rightarrow> int \<Rightarrow> nat \<times> int" where
  "shortest m e =
     (if m = 0 then (0, 0)
      else case List.find (\<lambda>nd. candidate m e nd \<noteq> None) [1..<18] of
        Some nd \<Rightarrow> the (candidate m e nd)
      | None \<Rightarrow> (0, 0))"

text \<open>The digits without trailing zeros, and the position of the point before the first of them.\<close>

definition decimal_digits :: "nat \<Rightarrow> int \<Rightarrow> string \<times> int" where
  "decimal_digits m e =
     (let (D, x) = shortest m e; ds = show_nat D
      in (rev (dropWhile (\<lambda>c. c = CHR ''0'') (rev ds)), if D = 0 then 0 else int (length ds) + x))"

text \<open>Formats \<open>'f'\<close> and \<open>'e'\<close> with the shortest digits.\<close>

definition format_f :: "string \<Rightarrow> int \<Rightarrow> string" where
  "format_f ds dp =
     (let whole = (if 0 < dp then take (nat dp) ds @ replicate (nat dp - length ds) CHR ''0'' else ''0'');
          frac = (if 0 < dp then drop (nat dp) ds
                  else if ds = [] then [] else replicate (nat (- dp)) CHR ''0'' @ ds)
      in if frac = [] then whole else whole @ ''.'' @ frac)"

definition format_e :: "string \<Rightarrow> int \<Rightarrow> string" where
  "format_e ds dp =
     (let x = (if ds = [] then 0 else dp - 1);
          xs = show_nat (nat \<bar>x\<bar>)
      in (if ds = [] then ''0'' else take 1 ds) @ (if length ds \<le> 1 then [] else ''.'' @ drop 1 ds) @
         (if x < 0 then ''e-'' else ''e+'') @ (if length xs < 2 then ''0'' @ xs else xs))"

fun FormatFloat :: "float64 \<Rightarrow> string" where
  "FormatFloat (Fin ng m e) =
     (let (ds, dp) = decimal_digits m e in (if ng then ''-'' else []) @ format_f ds dp)"
| "FormatFloat (Inf ng) = (if ng then ''-Inf'' else ''+Inf'')"
| "FormatFloat NaN = ''NaN''"

section \<open>Encoding\<close>

text \<open>A number is written with an exponent when its magnitude is below \<open>1e-6\<close> or from \<open>1e21\<close> on; a negative exponent then loses a leading zero.\<close>

definition trim_exponent :: "string \<Rightarrow> string" where
  "trim_exponent b =
     (let n = length b in
      if 4 \<le> n \<and> b ! (n - 4) = CHR ''e'' \<and> b ! (n - 3) = CHR ''-'' \<and> b ! (n - 2) = CHR ''0''
      then take (n - 2) b @ [b ! (n - 1)] else b)"

fun marshal_float :: "float64 \<Rightarrow> string" where
  "marshal_float (Fin ng m e) =
     (let (ds, dp) = decimal_digits m e in
      (if ng then ''-'' else []) @
      (if m \<noteq> 0 \<and> (dp < - 5 \<or> 21 < dp) then trim_exponent (format_e ds dp) else format_f ds dp))"
| "marshal_float f = FormatFloat f"

definition hex1 :: "nat \<Rightarrow> char" where
  "hex1 n = (if n < 10 then char_of (48 + n) else char_of (87 + n))"

definition u_escape :: "nat \<Rightarrow> string" where
  "u_escape n =
     [char_of (92 :: nat), CHR ''u'', hex1 (n div 4096 mod 16), hex1 (n div 256 mod 16),
      hex1 (n div 16 mod 16), hex1 (n mod 16)]"

definition escape_byte :: "char \<Rightarrow> string" where
  "escape_byte c =
     (let n = (of_char c :: nat); b = char_of (92 :: nat) in
      if n = 34 \<or> n = 92 then [b, c]
      else if n = 8 then [b, CHR ''b'']
      else if n = 12 then [b, CHR ''f'']
      else if n = 10 then [b, CHR ''n'']
      else if n = 13 then [b, CHR ''r'']
      else if n = 9 then [b, CHR ''t'']
      else if n < 32 \<or> n = 38 \<or> n = 60 \<or> n = 62 then u_escape n
      else [c])"

function (sequential) marshal_chars :: "string \<Rightarrow> string" where
  "marshal_chars [] = []"
| "marshal_chars (c # s) =
     (if (of_char c :: nat) < 128 then escape_byte c @ marshal_chars s
      else
       (let k = multi_byte (c # s); r = take k (c # s) in
        if k = 0 then u_escape 65533 @ marshal_chars s
        else if r = [CHR 0xE2, CHR 0x80, CHR 0xA8] then u_escape 8232 @ marshal_chars (drop (k - 1) s)
        else if r = [CHR 0xE2, CHR 0x80, CHR 0xA9] then u_escape 8233 @ marshal_chars (drop (k - 1) s)
        else r @ marshal_chars (drop (k - 1) s)))"
  by pat_completeness auto
termination
  by (relation "measure length") auto

definition marshal_string :: "string \<Rightarrow> string" where
  "marshal_string s = [char_of (34 :: nat)] @ marshal_chars s @ [char_of (34 :: nat)]"

text \<open>The members of an object are the entries of a Go map, written in the order of their keys.\<close>

definition sort_members :: "(string \<times> 'a) list \<Rightarrow> (string \<times> 'a) list" where
  "sort_members ms = sort_key fst (fold (\<lambda>(k, v). map_put k v) ms [])"

fun Marshal :: "json \<Rightarrow> string" where
  "Marshal JNull = ''null''"
| "Marshal (JBool b) = (if b then ''true'' else ''false'')"
| "Marshal (JNum txt) = (case ParseFloat txt of Some f \<Rightarrow> marshal_float f | None \<Rightarrow> [])"
| "Marshal (JStr s) = marshal_string s"
| "Marshal (JArr xs) = ''['' @ join (CHR '','') (map Marshal xs) @ '']''"
| "Marshal (JObj ms) =
     ''{'' @ join (CHR '','') (map (\<lambda>(k, v). marshal_string k @ '':'' @ v)
       (sort_members (map (\<lambda>(k, v). (k, Marshal v)) ms))) @ ''}''"

section \<open>Integers pass through binary64\<close>

lemma bit_length_bounds: "0 < n \<Longrightarrow> 2 ^ (bit_length n - 1) \<le> n \<and> n < 2 ^ bit_length n \<and> 0 < bit_length n"
proof (induction n rule: bit_length.induct)
  case (1 n)
  show ?case
  proof (cases "n div 2 = 0")
    case True
    with 1(2) have "n = 1" by simp
    then show ?thesis by (simp add: bit_length.simps)
  next
    case False
    let ?h = "n div 2"
    have ih: "2 ^ (bit_length ?h - 1) \<le> ?h" "?h < 2 ^ bit_length ?h" "0 < bit_length ?h"
      using 1 False by simp_all
    obtain b where b: "bit_length ?h = Suc b" using ih(3) gr0_implies_Suc by blast
    have "bit_length n = Suc (Suc b)" using 1(2) b by (simp add: bit_length.simps [of n])
    moreover have "2 * 2 ^ b \<le> n" "n < 4 * 2 ^ b"
      using ih(1,2) div_mult_mod_eq [of n 2] mod_less_divisor [of 2 n] unfolding b power_Suc diff_Suc_1
      by linarith+
    ultimately show ?thesis by simp
  qed
qed

lemma round_half_even_1 [simp]: "round_half_even n 1 = n"
  by (simp add: round_half_even_def)

lemma round64_exact:
  assumes "n < 2 ^ 53"
  obtains m e where "round64 n 1 = Some (m, e)" "e \<le> 0" "m = n * 2 ^ nat (- e)"
proof (cases "n = 0")
  case True
  then show thesis using that [of 0 0] by (simp add: round64_def)
next
  case False
  then obtain b where b: "bit_length n = Suc b" and lo: "2 ^ b \<le> n" and hi: "n < 2 ^ Suc b"
    using bit_length_bounds [of n] by (cases "bit_length n") auto
  have "(2::nat) ^ b < 2 ^ 53" using lo assms by linarith
  then have "b < 53" using power_less_imp_less_exp [of "2::nat" b 53] by simp
  then have b52: "b \<le> 52" by simp
  have one: "bit_length 1 = 1" by (simp add: bit_length.simps)
  have sc1: "scale n 1 (int b) = (n, 2 ^ b)" by (simp add: scale_def)
  have sc2: "scale n 1 (int b - 52) = (n * 2 ^ (52 - b), 1)"
  proof (cases "b = 52")
    case True
    then show ?thesis by (simp add: scale_def)
  next
    case False
    then have "\<not> 0 \<le> int b - 52" and "nat (- (int b - 52)) = 52 - b" using b52 by linarith+
    then show ?thesis by (simp only: scale_def if_False)
  qed
  have k: "int (bit_length n) - int (bit_length 1) = int b" by (simp add: b one del: One_nat_def)
  have mx: "max (int b - 52) (- 1074) = int b - 52" by simp
  have r1: "round_half_even (n * 2 ^ (52 - b)) 1 = n * 2 ^ (52 - b)" by (rule round_half_even_1)
  have ge: "\<not> n < 2 ^ b" and small: "\<not> (971 < int b - 52)" "int b - 52 \<noteq> 971" using lo b52 by linarith+
  have "round64 n 1 = Some (n * 2 ^ (52 - b), int b - 52)"
    unfolding round64_def k Let_def sc1 prod.case if_not_P [OF ge] mx sc2 r1
    using False small by (simp only: if_False simp_thms)
  moreover have "n * 2 ^ (52 - b) = n * 2 ^ nat (- (int b - 52))" using b52 by (simp add: nat_diff_distrib')
  moreover have "int b - 52 \<le> 0" using b52 by simp
  ultimately show thesis by (intro that)
qed

lemma trunc_mag_exact: "e \<le> 0 \<Longrightarrow> trunc_mag (n * 2 ^ nat (- e)) e = n"
  by (cases "e = 0") simp_all

definition exact_int :: "go_int \<Rightarrow> bool" where
  "exact_int w = (\<bar>sint w\<bar> < 2 ^ 53)"

lemma float_of_int_exact:
  assumes "exact_int w"
  shows "float_to_int (float_of_int w) = w"
proof -
  have "nat \<bar>sint w\<bar> < 2 ^ 53" using assms by (simp add: exact_int_def nat_less_iff)
  then obtain m e where r: "round64 (nat \<bar>sint w\<bar>) 1 = Some (m, e)" and e: "e \<le> 0"
    and m: "m = nat \<bar>sint w\<bar> * 2 ^ nat (- e)"
    by (rule round64_exact)
  have t: "trunc_mag m e = nat \<bar>sint w\<bar>" unfolding m by (rule trunc_mag_exact [OF e])
  have f: "float_of_int w = Fin (sint w < 0) m e" by (simp only: float_of_int_def r option.case prod.case)
  have "(if sint w < 0 then - int (trunc_mag m e) else int (trunc_mag m e)) = sint w"
    unfolding t by simp
  then show ?thesis
    using sint_bounds64 [of w] by (simp only: f float_to_int.simps Let_def) simp
qed

lemma float_eq_refl: "f \<noteq> NaN \<Longrightarrow> float_eq f f"
  by (cases f) simp_all

lemma float_of_int_number: "float_of_int w \<noteq> NaN"
  by (simp add: float_of_int_def split: option.splits)

lemma read_mant_digits:
  "list_all is_digit s \<Longrightarrow> digits_acc (m_val st) s = Some n \<Longrightarrow>
    read_mant 10 st s = (st\<lparr>m_val := n, m_nd := m_nd st + length s,
      m_digits := (m_digits st \<or> s \<noteq> [])\<rparr>, [])"
proof (induction s arbitrary: st)
  case Nil
  then show ?case by simp
next
  case (Cons c s)
  then have c: "is_digit c" by simp
  then have nc: "c \<noteq> CHR ''_''" "c \<noteq> CHR ''.''" by (auto simp: is_digit_def)
  from Cons.prems c have acc: "digits_acc (10 * m_val st + digit_val c) s = Some n" by simp
  show ?case
    using Cons.IH [of "st\<lparr>m_val := 10 * m_val st + digit_val c, m_nd := Suc (m_nd st), m_digits := True\<rparr>"]
      Cons.prems(1) acc c nc by (simp add: base_digit_def)
qed

lemma digit_lower1: "is_digit c \<Longrightarrow> lower1 c = c"
  by (simp add: is_digit_def lower1_def)

lemma digits_lower1: "list_all is_digit s \<Longrightarrow> map lower1 s = s"
  by (induction s) (auto simp: digit_lower1)

lemma ParseFloat_sign_digits:
  assumes "drop_sign s = (ng, t)" and "t \<noteq> []" and "list_all is_digit t" and "digits_acc 0 t = Some n"
    and "map lower1 s \<noteq> ''nan''"
  shows "ParseFloat s = map_option (\<lambda>(m, x). Fin ng m x) (round64 n 1)"
proof -
  obtain c u where t: "t = c # u" and c: "is_digit c" using assms(2,3) by (cases t) auto
  have "special_float s = None"
  proof -
    have "t \<noteq> ''inf''" "t \<noteq> ''infinity''" using c by (auto simp: t is_digit_def)
    then show ?thesis
      using assms(5) by (simp add: special_float_def assms(1) digits_lower1 [OF assms(3)])
  qed
  moreover have "\<not> is_hex t"
  proof
    assume h: "is_hex t"
    then have "is_digit (t ! 1)" using assms(3) by (simp add: is_hex_def list_all_length)
    then have "is_digit (CHR ''x'')" using h digit_lower1 [of "t ! 1"] by (simp add: is_hex_def)
    then show False by (simp add: is_digit_def)
  qed
  moreover have "read_mant 10 mant_start t =
      (mant_start\<lparr>m_val := n, m_nd := length t, m_digits := True\<rparr>, [])"
    using read_mant_digits [OF assms(3), of mant_start n] assms(2,4) by (simp add: mant_start_def)
  ultimately show ?thesis
    using assms(2)
    by (simp add: ParseFloat_def assms(1) read_exponent_def round_pow_def Let_def mant_start_def)
qed

text \<open>A formatted integer is an optional sign and the digits of its magnitude.\<close>

lemma FormatInt_split:
  obtains c u where "FormatInt w = (if sint w < 0 then CHR ''-'' # c # u else c # u)"
    and "show_nat (nat \<bar>sint w\<bar>) = c # u" and "is_digit c" and "list_all is_digit u"
proof -
  obtain c u where t: "show_nat (nat \<bar>sint w\<bar>) = c # u"
    using show_nat_digits [of "nat \<bar>sint w\<bar>"] by (cases "show_nat (nat \<bar>sint w\<bar>)") auto
  have "FormatInt w = (if sint w < 0 then CHR ''-'' # c # u else c # u)"
    using t by (cases "sint w < 0") (simp_all add: FormatInt_def)
  with t show thesis using that show_nat_digits [of "nat \<bar>sint w\<bar>"] by simp
qed

lemma ParseFloat_FormatInt:
  assumes "exact_int w"
  shows "ParseFloat (FormatInt w) = Some (float_of_int w)"
proof -
  let ?n = "nat \<bar>sint w\<bar>"
  have "?n < 2 ^ 53" using assms by (simp add: exact_int_def nat_less_iff)
  then obtain m e where r: "round64 ?n 1 = Some (m, e)" by (rule round64_exact)
  obtain c u where fmt: "FormatInt w = (if sint w < 0 then CHR ''-'' # c # u else c # u)"
    and t: "show_nat ?n = c # u" and c: "is_digit c" and u: "list_all is_digit u"
    by (rule FormatInt_split)
  have "drop_sign (FormatInt w) = (sint w < 0, c # u)"
    using digit_not_sign [OF c] by (simp add: drop_sign_def fmt)
  moreover have "map lower1 (FormatInt w) \<noteq> ''nan''"
    using c digit_lower1 [OF c] by (auto simp: fmt is_digit_def lower1_def)
  ultimately have "ParseFloat (FormatInt w) = map_option (\<lambda>(m, x). Fin (sint w < 0) m x) (round64 ?n 1)"
    using c u digits_acc_show_nat [of ?n] unfolding t
    by (intro ParseFloat_sign_digits [where t = "c # u"]) simp_all
  then show ?thesis by (simp only: r float_of_int_def option.case option.map prod.case)
qed

text \<open>What both conversions of decoded values do with a number.\<close>

definition number_text :: "string \<Rightarrow> string" where
  "number_text txt =
     (case ParseFloat txt of
        None \<Rightarrow> []
      | Some f \<Rightarrow>
          if float_eq f (float_of_int (float_to_int f)) then FormatInt (float_to_int f) else FormatFloat f)"

lemma number_text_FormatInt: "exact_int w \<Longrightarrow> number_text (FormatInt w) = FormatInt w"
  by (simp add: number_text_def ParseFloat_FormatInt float_of_int_exact float_eq_refl float_of_int_number)

section \<open>Decoding an integer\<close>

lemma show_nat_no_zero: "show_nat n = c # u \<Longrightarrow> c = CHR ''0'' \<Longrightarrow> u = []"
proof (induction n arbitrary: u rule: show_nat.induct)
  case (1 n)
  show ?case
  proof (cases "n < 10")
    case True
    with 1(2) show ?thesis by (simp add: show_nat.simps [of n])
  next
    case False
    obtain v where "show_nat (n div 10) = c # v"
      using 1(2) False show_nat_digits [of "n div 10"]
      by (cases "show_nat (n div 10)") (auto simp: show_nat.simps [of n])
    with 1(1) [OF False] 1(3) have "show_nat (n div 10) = [CHR ''0'']" by auto
    then have "digits_acc 0 [CHR ''0''] = Some (n div 10)" using digits_acc_show_nat [of "n div 10"] by simp
    then have "n div 10 = 0" by (simp add: is_digit_def digit_val_def)
    with False show ?thesis by simp
  qed
qed

lemma take_digits_all: "list_all is_digit s \<Longrightarrow> take_digits s = (s, [])"
  by (simp add: take_digits_def list_all_iff)

lemma json_number_FormatInt: "json_number (FormatInt w) = Some (FormatInt w, [])"
proof -
  obtain c u where fmt: "FormatInt w = (if sint w < 0 then CHR ''-'' # c # u else c # u)"
    and t: "show_nat (nat \<bar>sint w\<bar>) = c # u" and c: "is_digit c" and u: "list_all is_digit u"
    by (rule FormatInt_split)
  have "c \<noteq> CHR ''-''" using digit_not_sign [OF c] by simp
  then show ?thesis
    using show_nat_no_zero [OF t] c u take_digits_all [of "c # u"]
    by (auto simp: json_number_def fmt Let_def)
qed

lemma quote_not_minus: "char_of (34 :: nat) \<noteq> CHR ''-''"
  by code_simp

lemma json_parse_FormatInt: "json_parse (FormatInt w) = Some (JNum (FormatInt w))"
proof -
  obtain c u where fmt: "FormatInt w = (if sint w < 0 then CHR ''-'' # c # u else c # u)"
    and c: "is_digit c" by (rule FormatInt_split)
  obtain h t where ht: "FormatInt w = h # t" and h: "h = CHR ''-'' \<or> is_digit h"
    using fmt c by (cases "sint w < 0") auto
  have "skip (h # t) = h # t" using h by (auto simp: skip_def json_space_def is_digit_def)
  moreover have "h \<noteq> CHR ''{''" "h \<noteq> CHR ''[''" "h \<noteq> char_of (34 :: nat)" "h \<noteq> CHR ''t''"
      "h \<noteq> CHR ''f''" "h \<noteq> CHR ''n''"
    using h quote_not_minus by (auto simp: is_digit_def)
  ultimately have "json_value (Suc (length (h # t))) 0 (h # t) = Some (JNum (FormatInt w), [])"
    using json_number_FormatInt [of w] by (simp add: ht)
  then show ?thesis by (simp add: json_parse_def ht skip_def)
qed

section \<open>Strings pass through JSON\<close>

text \<open>What is left of a byte string: bytes that are no UTF-8 are replaced.\<close>

function (sequential) valid_utf8 :: "string \<Rightarrow> string" where
  "valid_utf8 [] = []"
| "valid_utf8 (c # s) =
     (if (of_char c :: nat) < 128 then c # valid_utf8 s
      else
       (let k = multi_byte (c # s) in
        if k = 0 then replacement @ valid_utf8 s
        else take k (c # s) @ valid_utf8 (drop (k - 1) s)))"
  by pat_completeness auto
termination
  by (relation "measure length") auto

lemma hex_val_hex1: "d < 16 \<Longrightarrow> hex_val (hex1 d) = Some d"
  by (auto simp: hex1_def hex_val_def of_char_of Let_def)

lemma getu4_hex: "n < 65536 \<Longrightarrow>
  getu4 (hex1 (n div 4096 mod 16) # hex1 (n div 256 mod 16) # hex1 (n div 16 mod 16) # hex1 (n mod 16) # t) = Some (n, t)"
proof -
  assume "n < 65536"
  then have top: "n div 4096 mod 16 = n div 4096" by (simp add: less_mult_imp_div_less)
  have d: "n div 16 div 16 = n div 256" "n div 256 div 16 = n div 4096" by (simp_all flip: div_mult2_eq)
  have "n = 16 * (n div 16) + n mod 16" "n div 16 = 16 * (n div 256) + n div 16 mod 16"
    "n div 256 = 16 * (n div 4096) + n div 256 mod 16"
    using mult_div_mod_eq [of 16 n] mult_div_mod_eq [of 16 "n div 16"] mult_div_mod_eq [of 16 "n div 256"] d by simp_all
  then have "4096 * (n div 4096 mod 16) + 256 * (n div 256 mod 16) + 16 * (n div 16 mod 16) + n mod 16 = n"
    unfolding top by linarith
  moreover have "hex_val (hex1 (x mod 16)) = Some (x mod 16)" for x by (simp add: hex_val_hex1)
  ultimately show ?thesis by (simp only: getu4_def list.case option.case prod.case)
qed

lemma json_string_u:
  assumes "n < 65536" and "\<not> (55296 \<le> n \<and> n < 57344)"
  shows "json_string (u_escape n @ t) = map_option (\<lambda>(v, w). (encode_rune n @ v, w)) (json_string t)"
proof -
  have q: "char_of (92 :: nat) \<noteq> char_of (34 :: nat)" by code_simp
  have "\<not> (55296 \<le> n \<and> n < 57344)" by (rule assms)
  then show ?thesis
    unfolding u_escape_def append_Cons append_Nil json_string.simps
    by (simp only: q if_False if_True refl list.case getu4_hex [OF assms(1)] option.case prod.case)
qed

lemma json_string_escape:
  assumes "(of_char c :: nat) < 128"
  shows "json_string (escape_byte c @ t) = map_option (\<lambda>(v, w). (c # v, w)) (json_string t)"
proof -
  let ?n = "of_char c :: nat"
  have c: "c = char_of ?n" by simp
  consider "?n = 34 \<or> ?n = 92" | "?n = 8 \<or> ?n = 12 \<or> ?n = 10 \<or> ?n = 13 \<or> ?n = 9"
    | "\<not> (?n = 34 \<or> ?n = 92)" "\<not> (?n = 8 \<or> ?n = 12 \<or> ?n = 10 \<or> ?n = 13 \<or> ?n = 9)" "?n < 32 \<or> ?n = 38 \<or> ?n = 60 \<or> ?n = 62"
    | "\<not> (?n = 34 \<or> ?n = 92)" "\<not> (?n < 32 \<or> ?n = 38 \<or> ?n = 60 \<or> ?n = 62)"
    by blast
  then show ?thesis
  proof cases
    case 1
    then have "c = char_of (34 :: nat) \<or> c = char_of (92 :: nat)" using c by metis
    moreover have "char_of (34 :: nat) \<noteq> CHR ''u''" "char_of (92 :: nat) \<noteq> CHR ''u''"
        "char_of (92 :: nat) \<noteq> char_of (34 :: nat)" by code_simp+
    ultimately show ?thesis using 1 by (auto simp: escape_byte_def simple_escape_def Let_def)
  next
    case 2
    then have "c \<in> {CHR 0x08, CHR 0x0C, CHR 0x0A, CHR 0x0D, CHR 0x09}" using c
    proof -
      have "char_of (8 :: nat) = CHR 0x08" "char_of (12 :: nat) = CHR 0x0C" "char_of (10 :: nat) = CHR 0x0A"
        "char_of (13 :: nat) = CHR 0x0D" "char_of (9 :: nat) = CHR 0x09" by code_simp+
      with 2 c show ?thesis by (metis insertI1 insertI2)
    qed
    moreover have "simple_escape CHR ''b'' = Some CHR 0x08" "simple_escape CHR ''f'' = Some CHR 0x0C"
      "simple_escape CHR ''n'' = Some CHR 0x0A" "simple_escape CHR ''r'' = Some CHR 0x0D"
      "simple_escape CHR ''t'' = Some CHR 0x09" "char_of (92 :: nat) \<noteq> char_of (34 :: nat)" by code_simp+
    ultimately show ?thesis by (auto simp: escape_byte_def)
  next
    case 3
    then have "escape_byte c = u_escape ?n" by (simp add: escape_byte_def Let_def)
    moreover have "encode_rune ?n = [c]" using assms by (simp add: encode_rune_def)
    ultimately show ?thesis using assms json_string_u [of ?n t] by simp
  next
    case 4
    then have "escape_byte c = [c]" by (auto simp: escape_byte_def Let_def)
    moreover have "c \<noteq> char_of (34 :: nat)" "c \<noteq> char_of (92 :: nat)" using 4 by auto
    ultimately show ?thesis using assms 4 by simp
  qed
qed

lemma multi_byte_prefix:
  assumes "multi_byte s = k" and "k \<noteq> 0"
  shows "k \<le> length s" and "2 \<le> k" and "multi_byte (take k s @ t) = k"
proof -
  obtain a s1 where s1: "s = a # s1" using assms by (cases s) (auto simp: multi_byte_def)
  obtain b s2 where s2: "s1 = b # s2" using assms s1 by (cases s1) (auto simp: multi_byte_def)
  have "k \<le> length s \<and> 2 \<le> k \<and> multi_byte (take k s @ t) = k"
  proof (cases "byte_in 194 223 a \<and> cont_byte b")
    case True
    then have "k = 2" using assms(1) by (simp add: multi_byte_def s1 s2)
    then show ?thesis using True by (simp add: multi_byte_def s1 s2 numeral_2_eq_2)
  next
    case no2: False
    obtain c s3 where s3: "s2 = c # s3" using assms no2 s1 s2 by (cases s2) (auto simp: multi_byte_def)
    let ?three = "(a = char_of (224 :: nat) \<and> byte_in 160 191 b
                   \<or> (byte_in 225 236 a \<or> byte_in 238 239 a) \<and> cont_byte b
                   \<or> a = char_of (237 :: nat) \<and> byte_in 128 159 b) \<and> cont_byte c"
    show ?thesis
    proof (cases ?three)
      case True
      have "multi_byte (a # b # c # u) = 3" for u
        unfolding multi_byte_def list.case using True no2 by (subst if_not_P, simp, subst if_P, simp_all)
      moreover from this [of s3] have "k = 3" using assms(1) by (simp add: s1 s2 s3)
      ultimately show ?thesis by (simp add: s1 s2 s3 numeral_3_eq_3)
    next
      case no3: False
      obtain d s4 where s4: "s3 = d # s4"
        using assms no2 no3 unfolding s1 s2 s3 multi_byte_def list.case by (cases s3) (simp_all only: if_False list.case)
      have u: "multi_byte (a # b # c # d # u) = (if (a = char_of (240 :: nat) \<and> byte_in 144 191 b
                        \<or> byte_in 241 243 a \<and> cont_byte b
                        \<or> a = char_of (244 :: nat) \<and> byte_in 128 143 b) \<and> cont_byte c \<and> cont_byte d then 4 else 0)" for u
        using no2 no3 unfolding multi_byte_def list.case by (simp only: if_False)
      then have k4: "multi_byte (a # b # c # d # u) = k" for u using assms(1) s1 s2 s3 s4 by simp
      then have "k = 4" using u [of "[]"] assms(2) by (simp split: if_splits)
      then show ?thesis using k4 by (simp add: s1 s2 s3 s4 numeral_eq_Suc)
    qed
  qed
  then show "k \<le> length s" "2 \<le> k" "multi_byte (take k s @ t) = k" by auto
qed

lemma json_string_bytes:
  assumes "\<not> (of_char c :: nat) < 128"
  shows "multi_byte (c # s) = 0 \<Longrightarrow>
      json_string (c # s) = map_option (\<lambda>(v, w). (replacement @ v, w)) (json_string s)"
    and "multi_byte (c # s) = k \<Longrightarrow> k \<noteq> 0 \<Longrightarrow>
      json_string (take k (c # s) @ t) = map_option (\<lambda>(v, w). (take k (c # s) @ v, w)) (json_string t)"
proof -
  have "(of_char (char_of (34 :: nat) :: char) :: nat) = 34" "(of_char (char_of (92 :: nat) :: char) :: nat) = 92" by simp_all
  then have c: "c \<noteq> char_of (34 :: nat)" "c \<noteq> char_of (92 :: nat)" "\<not> (of_char c :: nat) < 32" using assms by auto
  show "json_string (c # s) = map_option (\<lambda>(v, w). (replacement @ v, w)) (json_string s)" if "multi_byte (c # s) = 0"
    using c assms that by simp
  assume k: "multi_byte (c # s) = k" "k \<noteq> 0"
  obtain n where n: "k = Suc n" using k(2) not0_implies_Suc by blast
  have "length (take n s) = n" using multi_byte_prefix(1) [OF k] n by simp
  moreover have "multi_byte (c # take n s @ t) = k" using multi_byte_prefix(3) [OF k, of t] n by simp
  ultimately show "json_string (take k (c # s) @ t) = map_option (\<lambda>(v, w). (take k (c # s) @ v, w)) (json_string t)"
    using c assms k(2) n by (simp add: Let_def)
qed

text \<open>What \<open>Marshal\<close> writes for a string reads back as the string, bytes that are no UTF-8 replaced.\<close>

lemma json_string_marshal: "json_string (marshal_chars s @ char_of (34 :: nat) # t) = Some (valid_utf8 s, t)"
proof (induction s rule: marshal_chars.induct)
  case 1
  then show ?case by simp
next
  case (2 c s)
  show ?case
  proof (cases "(of_char c :: nat) < 128")
    case True
    with 2(1) show ?thesis by (simp add: json_string_escape)
  next
    case high: False
    let ?k = "multi_byte (c # s)"
    have runes: "encode_rune 65533 = replacement" "encode_rune 8232 = [CHR 0xE2, CHR 0x80, CHR 0xA8]"
      "encode_rune 8233 = [CHR 0xE2, CHR 0x80, CHR 0xA9]" by code_simp+
    consider (bad) "?k = 0" | (ls) "?k \<noteq> 0" "take ?k (c # s) = [CHR 0xE2, CHR 0x80, CHR 0xA8]"
      | (ps) "?k \<noteq> 0" "take ?k (c # s) = [CHR 0xE2, CHR 0x80, CHR 0xA9]"
      | (plain) "?k \<noteq> 0" "take ?k (c # s) \<noteq> [CHR 0xE2, CHR 0x80, CHR 0xA8]"
          "take ?k (c # s) \<noteq> [CHR 0xE2, CHR 0x80, CHR 0xA9]" by blast
    then show ?thesis
    proof cases
      case bad
      with 2(2) [OF high refl refl] high show ?thesis by (simp add: Let_def json_string_u runes)
    next
      case ls
      with 2(3) [OF high refl refl] high show ?thesis by (simp add: Let_def json_string_u runes)
    next
      case ps
      then have "take ?k (c # s) \<noteq> [CHR 0xE2, CHR 0x80, CHR 0xA8]" by simp
      with ps 2(4) [OF high refl refl] high show ?thesis by (simp add: Let_def json_string_u runes)
    next
      case plain
      with 2(5) [OF high refl refl] high json_string_bytes(2) [OF high refl, of s "marshal_chars (drop (?k - 1) s) @ char_of (34 :: nat) # t"]
      show ?thesis by (simp add: Let_def del: take_Suc_Cons)
    qed
  qed
qed

section \<open>The fuel of the parser\<close>

lemma json_string_length: "json_string s = Some (v, r) \<Longrightarrow> length r < length s"
proof (induction s arbitrary: v rule: measure_induct_rule [of length])
  case (less s)
  have ih: "length y < length s \<longrightarrow> length r < length y" if "json_string y = Some (w, r)" for y w
    using less.IH that by blast
  show ?case
  proof (cases s)
    case (Cons c t)
    show ?thesis
      using less.prems unfolding Cons
      by (auto simp: Let_def Cons split: if_splits list.splits option.splits
          dest!: getu4_length low_surrogate_length ih [unfolded Cons])
  qed (use less.prems in simp)
qed

lemma skip_length: "length (skip s) \<le> length s"
  by (simp add: skip_def length_dropWhile_le)

lemma take_digits_length: "take_digits s = (a, b) \<Longrightarrow> length a + length b = length s"
  by (auto simp: take_digits_def length_append [symmetric] simp del: length_append)

lemma json_number_length:
  assumes "json_number s = Some (txt, r)"
  shows "length r < length s"
proof -
  obtain sign s1 where 1: "(case s of c # t \<Rightarrow> if c = CHR ''-'' then (''-'', t) else ([], s) | [] \<Rightarrow> ([], [])) = (sign, s1)"
    by fastforce
  obtain ds s2 where 2: "(case s1 of c # t \<Rightarrow> if c = CHR ''0'' then (''0'', t) else take_digits s1 | [] \<Rightarrow> ([], [])) = (ds, s2)"
    by fastforce
  obtain frac s3 where 3: "(case s2 of
      c # t \<Rightarrow> if c = CHR ''.'' then (let (fs, u) = take_digits t in (Some (''.'', fs), u)) else (None, s2)
    | [] \<Rightarrow> (None, [])) = (frac, s3)"
    by fastforce
  obtain ex s4 where 4: "(case s3 of
      c # t \<Rightarrow>
        if c = CHR ''e'' \<or> c = CHR ''E'' then
          (let (sg, u) = (case t of
                 d # v \<Rightarrow> if d = CHR ''+'' \<or> d = CHR ''-'' then ([d], v) else ([], t)
               | [] \<Rightarrow> ([], []));
               (es, w) = take_digits u
           in (Some (''e'' @ sg, es), w))
        else (None, s3)
    | [] \<Rightarrow> (None, [])) = (ex, s4)"
    by fastforce
  have "length s1 \<le> length s" using 1 by (auto split: list.splits if_splits)
  moreover have "ds \<noteq> [] \<longrightarrow> length s2 < length s1"
    using 2 by (cases s1) (auto simp: neq_Nil_conv split: if_splits dest!: take_digits_length)
  moreover have "length s3 \<le> length s2"
    using 3 by (cases s2) (auto split: if_splits prod.splits dest!: take_digits_length)
  moreover have "length s4 \<le> length s3"
    using 4 by (cases s3) (auto split: if_splits prod.splits list.splits dest!: take_digits_length)
  moreover have "ds \<noteq> [] \<and> r = s4"
    using assms unfolding json_number_def Let_def 1 prod.case 2 3 [unfolded Let_def] 4 [unfolded Let_def]
    by (auto split: if_splits option.splits)
  ultimately show ?thesis by auto
qed


text \<open>
  A value, list of elements or list of members that is read on some fuel is read on every fuel
  that is at least the number of bytes consumed.
\<close>

definition read_off :: "(nat \<Rightarrow> (string \<Rightarrow> ('a \<times> string) option)) \<Rightarrow> string \<Rightarrow> 'a \<Rightarrow> string \<Rightarrow> bool" where
  "read_off p s v r = (length r < length s \<and> (\<forall>m. length s \<le> m + length r \<longrightarrow> p m s = Some (v, r)))"

lemma json_fuel:
  "json_value n d s = Some (v, r) \<Longrightarrow> read_off (\<lambda>m. json_value m d) s v r"
  "json_elems n d s = Some (xs, r) \<Longrightarrow> read_off (\<lambda>m. json_elems m d) s xs r"
  "json_members n d s = Some (ms, r) \<Longrightarrow> read_off (\<lambda>m. json_members m d) s ms r"
proof (induction n arbitrary: d s v xs ms r)
  case (Suc n)
  have pos: "\<exists>k. m = Suc k" if "length s \<le> m + length r'" "length r' < length s" for m :: nat and s r' :: string
    using that by (cases m) auto
  {
    case 1
    obtain c t where c: "skip s = c # t" using 1 by (auto split: list.splits)
    have t: "length t < length s" using skip_length [of s] c by simp
    consider (obj) ms' where "c = CHR ''{''" "json_members n (Suc d) t = Some (ms', r)"
      | (arr) xs' where "c = CHR ''[''" "json_elems n (Suc d) t = Some (xs', r)"
      | (flat) "length r < length s" "\<And>k. json_value (Suc k) d s = Some (v, r)"
    proof -
      assume obj: "\<And>ms'. c = CHR ''{'' \<Longrightarrow> json_members n (Suc d) t = Some (ms', r) \<Longrightarrow> thesis"
        and arr: "\<And>xs'. c = CHR ''['' \<Longrightarrow> json_elems n (Suc d) t = Some (xs', r) \<Longrightarrow> thesis"
        and flat: "length r < length s \<Longrightarrow> (\<And>k. json_value (Suc k) d s = Some (v, r)) \<Longrightarrow> thesis"
      have lt: "length r < length s" if "skip t = e # r" for e using skip_length [of t] that t by simp
      show thesis
      proof (cases "c = CHR ''{'' \<or> c = CHR ''[''")
        case True
        obtain e u where e: "skip t = e # u" using True 1 c by (auto split: list.splits if_splits)
        show thesis
        proof (cases "c = CHR ''{'' \<and> e = CHR ''}'' \<or> c = CHR ''['' \<and> e = CHR '']''")
          case True
          then have "u = r" "\<And>k. json_value (Suc k) d s = Some (v, r)" using 1 c e by (auto split: if_splits)
          then show thesis using lt e by (intro flat) simp_all
        next
          case False
          then show thesis using True 1 c e obj arr by (auto split: if_splits)
        qed
      next
        case False
        have "length r < length s"
          using 1 c t False skip_length [of s]
          by (auto split: if_splits option.splits dest!: json_string_length json_number_length simp: CutPrefix_Some)
        moreover have "json_value (Suc k) d s = Some (v, r)" for k using 1 c False by simp
        ultimately show thesis by (rule flat)
      qed
    qed
    then show ?case
    proof cases
      case obj
      note r = Suc.IH(3) [OF obj(2), unfolded read_off_def]
      have len: "length r < length s" using r t by linarith
      have "json_value m d s = Some (v, r)" if le: "length s \<le> m + length r" for m
      proof -
        obtain k where k: "m = Suc k" using pos [OF le len] by blast
        have "json_members k (Suc d) t = Some (ms', r)" using r t le k by auto
        then show ?thesis using k c obj 1 by (auto split: list.splits if_splits)
      qed
      with len show ?thesis by (simp add: read_off_def)
    next
      case arr
      note r = Suc.IH(2) [OF arr(2), unfolded read_off_def]
      have len: "length r < length s" using r t by linarith
      have "json_value m d s = Some (v, r)" if le: "length s \<le> m + length r" for m
      proof -
        obtain k where k: "m = Suc k" using pos [OF le len] by blast
        have "json_elems k (Suc d) t = Some (xs', r)" using r t le k by auto
        then show ?thesis using k c arr 1 by (auto split: list.splits if_splits)
      qed
      with len show ?thesis by (simp add: read_off_def)
    next
      case flat
      have "json_value m d s = Some (v, r)" if le: "length s \<le> m + length r" for m
        using flat(2) pos [OF le flat(1)] by blast
      with flat(1) show ?thesis by (simp add: read_off_def)
    qed
  next
    case 2
    obtain x u where x: "json_value n d s = Some (x, u)" using 2 by (auto split: option.splits)
    note xu = Suc.IH(1) [OF x, unfolded read_off_def]
    obtain c t where c: "skip u = c # t" using 2 x by (auto split: list.splits)
    have t: "length t < length u" using skip_length [of u] c by simp
    consider (more) ys where "c = CHR '',''" "json_elems n d t = Some (ys, r)" "xs = x # ys"
      | (last) "c = CHR '']''" "xs = [x]" "r = t"
      using 2 x c by (auto split: if_splits)
    then show ?case
    proof cases
      case more
      note yr = Suc.IH(2) [OF more(2), unfolded read_off_def]
      have len: "length r < length s" using xu yr t by linarith
      have "json_elems m d s = Some (xs, r)" if le: "length s \<le> m + length r" for m
      proof -
        obtain k where k: "m = Suc k" using pos [OF le len] by blast
        have "json_value k d s = Some (x, u)" "json_elems k d t = Some (ys, r)"
          using xu yr t le k by auto
        then show ?thesis using k c more by simp
      qed
      with len show ?thesis by (simp add: read_off_def)
    next
      case last
      have len: "length r < length s" using xu t last by auto
      have "json_elems m d s = Some (xs, r)" if le: "length s \<le> m + length r" for m
      proof -
        obtain k where k: "m = Suc k" using pos [OF le len] by blast
        have "json_value k d s = Some (x, u)" using xu t last le k by auto
        then show ?thesis using k c last by simp
      qed
      with len show ?thesis by (simp add: read_off_def)
    qed
  next
    case 3
    obtain c t where c: "skip s = c # t" "c = char_of (34 :: nat)"
      using 3 by (auto split: list.splits if_splits)
    have t: "length t < length s" using skip_length [of s] c by simp
    obtain key u where u: "json_string t = Some (key, u)" using 3 c by (auto split: option.splits)
    obtain w where w: "skip u = CHR '':'' # w" using 3 c u by (auto split: list.splits if_splits)
    obtain x y where x: "json_value n d w = Some (x, y)" using 3 c u w by (auto split: option.splits)
    note xy = Suc.IH(1) [OF x, unfolded read_off_def]
    obtain f z where f: "skip y = f # z" using 3 c u w x by (auto split: list.splits)
    have lens: "length u < length t" "length w < length u" "length z < length y"
      using json_string_length [OF u] skip_length [of u] w skip_length [of y] f by simp_all
    consider (more) ps where "f = CHR '',''" "json_members n d z = Some (ps, r)" "ms = (key, x) # ps"
      | (last) "f = CHR ''}''" "ms = [(key, x)]" "r = z"
      using 3 c u w x f by (auto split: if_splits)
    then show ?case
    proof cases
      case more
      note pr = Suc.IH(3) [OF more(2), unfolded read_off_def]
      have len: "length r < length s" using xy pr t lens by linarith
      have "json_members m d s = Some (ms, r)" if le: "length s \<le> m + length r" for m
      proof -
        obtain k where k: "m = Suc k" using pos [OF le len] by blast
        have "json_value k d w = Some (x, y)" "json_members k d z = Some (ps, r)"
          using xy pr t lens le k by auto
        then show ?thesis using k c u w f more by simp
      qed
      with len show ?thesis by (simp add: read_off_def)
    next
      case last
      have len: "length r < length s" using xy t lens last by auto
      have "json_members m d s = Some (ms, r)" if le: "length s \<le> m + length r" for m
      proof -
        obtain k where k: "m = Suc k" using pos [OF le len] by blast
        have "json_value k d w = Some (x, y)" using xy t lens last le k by auto
        then show ?thesis using k c u w f last by simp
      qed
      with len show ?thesis by (simp add: read_off_def)
    qed
  }
qed simp_all


text \<open>The fuel of \<open>json_parse\<close> is enough: a text that parses on any fuel parses.\<close>

lemma json_parse_iff: "json_parse s = Some v \<longleftrightarrow> (\<exists>n r. json_value n 0 s = Some (v, r) \<and> skip r = [])"
proof
  assume "json_parse s = Some v"
  then obtain r where "json_value (Suc (length s)) 0 s = Some (v, r)" "skip r = []"
    unfolding json_parse_def by (auto split: option.splits if_splits simp del: json_value.simps)
  then show "\<exists>n r. json_value n 0 s = Some (v, r) \<and> skip r = []" by blast
next
  assume "\<exists>n r. json_value n 0 s = Some (v, r) \<and> skip r = []"
  then obtain n r where r: "json_value n 0 s = Some (v, r)" "skip r = []" by blast
  have "json_value (Suc (length s)) 0 s = Some (v, r)"
    using json_fuel(1) [OF r(1)] unfolding read_off_def by (auto simp del: json_value.simps)
  then show "json_parse s = Some v" by (simp add: json_parse_def r(2) del: json_value.simps)
qed

end
