(* ===== verification/Pve.thy ===== *)
theory Pve imports Httpreq Jsonout begin

text \<open>
  \<open>internal/pve/client.go\<close> and the interface \<open>APIClient\<close> of \<open>internal/usage/engine.go\<close>: the
  read-only view of PVE the accounting works on. An \<open>api\<close> is what PVE answers at one moment; a
  call fails with an error or returns a value. The client makes an \<open>api\<close> from the answers to
  HTTP requests, which are a parameter; the texts of the errors of \<open>net/http\<close> and
  \<open>encoding/json\<close> are not kept.
\<close>

section \<open>Members and the interface\<close>

datatype api_error =
    ApiError string
  | PoolError string api_error        \<comment> \<open>\<open>pool %s: %w\<close>\<close>
  | ConfigError string go_int api_error  \<comment> \<open>\<open>config %s/%d: %w\<close>\<close>

record member =
  m_VMID :: go_int
  m_Node :: string
  m_Type :: string

record api =
  PoolMembers :: "string \<Rightarrow> api_error + member list"
  GuestConfig :: "string \<Rightarrow> string \<Rightarrow> go_int \<Rightarrow> api_error + params"
  StorageContent :: "string \<Rightarrow> string \<Rightarrow> api_error + disks"
  SnapshotConfig :: "string \<Rightarrow> string \<Rightarrow> go_int \<Rightarrow> string \<Rightarrow> api_error + params"
  ExtractConfig :: "string \<Rightarrow> string \<Rightarrow> api_error + params"

section \<open>Config text\<close>

text \<open>The loop over the lines; it stops at the first section header.\<close>

fun conf_lines :: "string list \<Rightarrow> params \<Rightarrow> params" where
  "conf_lines [] out = out"
| "conf_lines (l # ls) out =
     (let line = TrimSpace l in
      if line = [] \<or> HasPrefix line ''#'' then conf_lines ls out
      else if HasPrefix line ''['' then out
      else
       (let (k, v, ok) = Cut line CHR '':'' in
        if \<not> ok then conf_lines ls out
        else conf_lines ls (map_put (TrimSpace k) (TrimSpace v) out)))"

definition parseConfText :: "string \<Rightarrow> params" where
  "parseConfText text = conf_lines (Split text CHR 0x0A) []"

lemma conf_lines_wf: "map_wf out \<Longrightarrow> map_wf (conf_lines ls out)"
  by (induction ls out rule: conf_lines.induct) (auto simp: Let_def gm.wf_put split: prod.splits)

lemma parseConfText_wf: "map_wf (parseConfText text)"
  by (simp add: parseConfText_def conf_lines_wf)

section \<open>Decoded values as text\<close>

definition stringify :: "json \<Rightarrow> string" where
  "stringify v =
     (case v of
        JStr t \<Rightarrow> t
      | JNum txt \<Rightarrow>
          (case ParseFloat txt of
             Some t \<Rightarrow>
               if float_eq t (float_of_int (float_to_int t)) then FormatInt (float_to_int t)
               else FormatFloat t
           | None \<Rightarrow> [])
      | JBool t \<Rightarrow> if t then ''1'' else ''0''
      | JNull \<Rightarrow> []
      | _ \<Rightarrow> Marshal v)"

definition stringify_all :: "(string, json) gomap \<Rightarrow> params" where
  "stringify_all raw = fold (\<lambda>(k, v). map_put k (stringify v)) raw []"

section \<open>The client\<close>

text \<open>
  The answer to a GET on an escaped path and a raw query with the given header fields: the status
  code with its text and the body, or \<open>None\<close> when the request could not be carried out. Of the
  base address the client uses, the path and the query are kept; its host is the upstream's.
\<close>

type_synonym upstream = "string \<Rightarrow> string \<Rightarrow> (string, string list) gomap \<Rightarrow> (nat \<times> string \<times> string) option"

record client =
  c_path :: string
  c_query :: string
  c_token :: string

text \<open>
  \<open>URL.String\<close> encodes the path again: every byte that may not stand in a path, the percent
  sign included, is written as an escape.
\<close>

definition path_byte :: "char \<Rightarrow> bool" where
  "path_byte c = (unreserved c \<or> c \<in> set ''$&+,/:;=@'')"

definition encode_path :: "string \<Rightarrow> string" where
  "encode_path p = (if p = ''*'' then p else concat (map (\<lambda>c. if path_byte c then [c] else percent c) p))"

text \<open>The path and the query of the request for a path of the API; without a query of its own it keeps the base's.\<close>

definition request_url :: "client \<Rightarrow> string \<Rightarrow> string \<times> string" where
  "request_url c path =
     (case Index path CHR ''?'' of
        Some i \<Rightarrow> (encode_path (TrimRight (c_path c) CHR ''/'' @ take i path), drop (i + 1) path)
      | None \<Rightarrow> (encode_path (TrimRight (c_path c) CHR ''/'' @ path), c_query c))"

definition auth_header :: "client \<Rightarrow> (string, string list) gomap" where
  "auth_header c = [(''Authorization'', [''PVEAPIToken='' @ c_token c])]"

definition get_error :: "string \<Rightarrow> string \<Rightarrow> api_error" where
  "get_error path what = ApiError (''pve GET '' @ path @ '': '' @ what)"

text \<open>
  The last \<open>data\<close> member of the answer; the decoder reads the first value of the body and
  ignores what follows.
\<close>

definition data_of :: "string \<Rightarrow> json option option" where
  "data_of text =
     (case json_value (Suc (length text)) 0 text of
        Some (JObj ms, _) \<Rightarrow>
          (case rev (field ''data'' ms) of [] \<Rightarrow> Some None | v # _ \<Rightarrow> Some (if v = JNull then None else Some v))
      | Some (JNull, _) \<Rightarrow> Some None
      | _ \<Rightarrow> None)"

text \<open>
  A GET; \<open>decode\<close> stands for the second unmarshalling, into \<open>out\<close>, which keeps its zero value
  \<open>z\<close> when there is no data.
\<close>

definition get :: "upstream \<Rightarrow> client \<Rightarrow> string \<Rightarrow> (json \<Rightarrow> 'a option) \<Rightarrow> 'a \<Rightarrow> api_error + 'a" where
  "get up c path decode z =
     (let (p, query) = request_url c path in
      case up p query (auth_header c) of
        None \<Rightarrow> Inl (ApiError ''transport'')
      | Some (code, status, text) \<Rightarrow>
          if code \<noteq> 200 then Inl (get_error path status)
          else case data_of text of
            None \<Rightarrow> Inl (get_error path ''decode'')
          | Some None \<Rightarrow> Inr z
          | Some (Some v) \<Rightarrow> (case decode v of None \<Rightarrow> Inl (ApiError ''unmarshal'') | Some x \<Rightarrow> Inr x))"

definition member_of :: "(string \<times> json) list \<Rightarrow> member option" where
  "member_of ms =
     (case (int_field (field ''vmid'' ms), str_field (field ''node'' ms), str_field (field ''type'' ms)) of
        (Some v, Some n, Some t) \<Rightarrow> Some \<lparr>m_VMID = v, m_Node = n, m_Type = t\<rparr>
      | _ \<Rightarrow> None)"

text \<open>The last \<open>members\<close> field counts.\<close>

fun members_of :: "json \<Rightarrow> member list option" where
  "members_of (JObj ms) =
     (case all_some (map (slice_of member_of) (field ''members'' ms)) of
        None \<Rightarrow> None
      | Some ls \<Rightarrow> Some (if ls = [] then [] else last ls))"
| "members_of _ = None"

definition c_PoolMembers :: "upstream \<Rightarrow> client \<Rightarrow> string \<Rightarrow> api_error + member list" where
  "c_PoolMembers up c poolid = get up c (''/api2/json/pools/'' @ PathEscape poolid) members_of []"

definition config_of :: "upstream \<Rightarrow> client \<Rightarrow> string \<Rightarrow> api_error + params" where
  "config_of up c p =
     (case get up c p any_map [] of Inl e \<Rightarrow> Inl e | Inr raw \<Rightarrow> Inr (stringify_all raw))"

definition c_GuestConfig :: "upstream \<Rightarrow> client \<Rightarrow> string \<Rightarrow> string \<Rightarrow> go_int \<Rightarrow> api_error + params" where
  "c_GuestConfig up c node kind vmid =
     config_of up c (''/api2/json/nodes/'' @ PathEscape node @ ''/'' @ kind @ ''/'' @ FormatInt vmid @ ''/config'')"

definition c_SnapshotConfig :: "upstream \<Rightarrow> client \<Rightarrow> string \<Rightarrow> string \<Rightarrow> go_int \<Rightarrow> string \<Rightarrow> api_error + params" where
  "c_SnapshotConfig up c node kind vmid snap =
     config_of up c (''/api2/json/nodes/'' @ PathEscape node @ ''/'' @ kind @ ''/'' @ FormatInt vmid @
       ''/snapshot/'' @ PathEscape snap @ ''/config'')"

fun text_of :: "json \<Rightarrow> string option" where
  "text_of (JStr s) = Some s"
| "text_of _ = None"

definition c_ExtractConfig :: "upstream \<Rightarrow> client \<Rightarrow> string \<Rightarrow> string \<Rightarrow> api_error + params" where
  "c_ExtractConfig up c node volume =
     (case get up c (''/api2/json/nodes/'' @ PathEscape node @ ''/vzdump/extractconfig?volume='' @ QueryEscape volume)
         text_of [] of
        Inl e \<Rightarrow> Inl e
      | Inr text \<Rightarrow> Inr (parseConfText text))"

definition volume_of :: "(string \<times> json) list \<Rightarrow> (string \<times> go_int) option" where
  "volume_of ms =
     (case (str_field (field ''volid'' ms), int_field (field ''size'' ms)) of
        (Some v, Some n) \<Rightarrow> Some (v, n)
      | _ \<Rightarrow> None)"

definition c_StorageContent :: "upstream \<Rightarrow> client \<Rightarrow> string \<Rightarrow> string \<Rightarrow> api_error + disks" where
  "c_StorageContent up c node storage =
     (case get up c (''/api2/json/nodes/'' @ PathEscape node @ ''/storage/'' @ PathEscape storage @ ''/content'')
         (slice_of volume_of) [] of
        Inl e \<Rightarrow> Inl e
      | Inr vs \<Rightarrow> Inr (fold (\<lambda>(v, n). map_put v n) vs []))"

text \<open>The client as the interface of the accounting.\<close>

definition client_api :: "upstream \<Rightarrow> client \<Rightarrow> api" where
  "client_api up c =
     \<lparr>PoolMembers = c_PoolMembers up c,
      GuestConfig = c_GuestConfig up c,
      StorageContent = c_StorageContent up c,
      SnapshotConfig = c_SnapshotConfig up c,
      ExtractConfig = c_ExtractConfig up c\<rparr>"

section \<open>Properties of the client\<close>

lemma encode_path_plain: "list_all path_byte p \<Longrightarrow> encode_path p = p"
proof -
  assume "list_all path_byte p"
  then have "concat (map (\<lambda>c. if path_byte c then [c] else percent c) p) = p" by (induction p) auto
  then show ?thesis by (simp add: encode_path_def)
qed

lemma fold_put_get:
  "map_get (fold (\<lambda>(k, v). map_put k (f v)) ps m) k =
    (case map_get (rev ps) k of None \<Rightarrow> map_get m k | Some v \<Rightarrow> Some (f v))"
proof (induction ps rule: rev_induct)
  case Nil
  then show ?case by simp
next
  case (snoc p ps)
  then show ?case by (cases p) (simp add: gm.get_put)
qed

lemma fold_put_wf: "map_wf m \<Longrightarrow> map_wf (fold (\<lambda>(k, v). map_put k (f v)) ps m)"
  by (induction ps arbitrary: m) (auto simp: gm.wf_put)

lemma stringify_all_get: "map_wf raw \<Longrightarrow> map_get (stringify_all raw) k = map_option stringify (map_get raw k)"
  unfolding stringify_all_def fold_put_get
  using map_get_perm [of "rev raw" raw k] map_wf_perm [of "rev raw" raw] by (simp add: split: option.split)

lemma stringify_all_wf: "map_wf (stringify_all raw)"
  by (simp add: stringify_all_def fold_put_wf)

lemma any_map_members:
  assumes "any_map (JObj ms) = Some raw"
  shows "map_wf raw" and "map_get raw k = map_get (rev ms) k"
  using assms fold_put_get [of id ms "[]" k] fold_put_wf [of "[]" id ms]
  by (auto split: if_splits option.splits)

lemma stringify_FormatInt: "exact_int w \<Longrightarrow> stringify (JNum (FormatInt w)) = FormatInt w"
  using number_text_FormatInt [of w] by (simp add: stringify_def number_text_def)

definition config_path :: "string \<Rightarrow> string \<Rightarrow> go_int \<Rightarrow> string" where
  "config_path node kind vmid =
     ''/api2/json/nodes/'' @ node @ ''/'' @ kind @ ''/'' @ FormatInt vmid @ ''/config''"

lemma unreserved_path_byte: "unreserved c \<Longrightarrow> path_byte c \<and> c \<noteq> CHR ''?''"
  by (auto simp: path_byte_def unreserved_def)

lemma PathEscape_unreserved: "list_all unreserved s \<Longrightarrow> PathEscape s = s"
  unfolding PathEscape_def by (induction s) auto

lemma FormatInt_unreserved: "list_all unreserved (FormatInt w)"
  using FormatInt_chars [of _ w] by (auto simp: list_all_iff unreserved_def is_digit_def Let_def)

lemma Index_None: "c \<notin> set s \<Longrightarrow> Index s c = None"
  by (induction s) auto

text \<open>The config text of a guest: one line per entry; snapshots follow in sections.\<close>

fun conf_entry :: "string \<times> string \<Rightarrow> bool" where
  "conf_entry (k, v) =
     (k \<noteq> [] \<and> plain (hd k) \<and> plain (last k) \<and> hd k \<notin> {CHR ''#'', CHR ''[''} \<and>
      CHR '':'' \<notin> set k \<and> CHR 0x0A \<notin> set k \<and>
      v \<noteq> [] \<and> plain (hd v) \<and> plain (last v) \<and> CHR 0x0A \<notin> set v)"

fun conf_line :: "string \<times> string \<Rightarrow> string" where
  "conf_line (k, v) = k @ CHR '':'' # CHR '' '' # v"

definition conf_text :: "(string \<times> string) list \<Rightarrow> string \<Rightarrow> string" where
  "conf_text kvs sections = concat (map (\<lambda>e. conf_line e @ [CHR 0x0A]) kvs) @ sections"

lemma TrimSpace_space: "v \<noteq> [] \<Longrightarrow> plain (hd v) \<Longrightarrow> plain (last v) \<Longrightarrow> TrimSpace (CHR '' '' # v) = v"
proof -
  assume v: "v \<noteq> []" "plain (hd v)" "plain (last v)"
  have "trim_left (CHR '' '' # v) = trim_left v"
    by (cases "CHR '' '' # v" rule: trim_left.cases) (auto simp: space1_def)
  then show ?thesis using TrimSpace_plain [OF v] by (simp add: TrimSpace_def)
qed

lemma HasPrefix_hd: "s \<noteq> [] \<Longrightarrow> HasPrefix s [c] \<longleftrightarrow> hd s = c"
  by (cases s) (auto simp: HasPrefix_def)

lemma conf_lines_entry:
  assumes "conf_entry (k, v)"
  shows "conf_lines (conf_line (k, v) # ls) out = conf_lines ls (map_put k v out)"
proof -
  let ?l = "conf_line (k, v)"
  have l: "?l \<noteq> []" "hd ?l = hd k" "last ?l = last v" using assms by auto
  then have t: "TrimSpace ?l = ?l" using assms by (intro TrimSpace_plain) auto
  have "Cut ?l CHR '':'' = (k, CHR '' '' # v, True)" using assms by (auto intro: Cut_append)
  moreover have "TrimSpace k = k" using assms by (intro TrimSpace_plain) auto
  moreover have "TrimSpace (CHR '' '' # v) = v" using assms by (intro TrimSpace_space) auto
  moreover have "\<not> HasPrefix ?l ''#''" "\<not> HasPrefix ?l ''[''" using assms l by (auto simp: HasPrefix_hd)
  ultimately show ?thesis using l(1) by (simp only: conf_lines.simps t Let_def prod.case simp_thms if_False)
qed

lemma map_put_fresh: "\<not> has_key m k \<Longrightarrow> map_put k v m = m @ [(k, v)]"
  by (induction m) auto

lemma conf_lines_text:
  assumes "list_all conf_entry kvs" and "map_wf (out @ kvs)" and "sections = [] \<or> hd sections = CHR ''[''"
  shows "conf_lines (Split (conf_text kvs sections) CHR 0x0A) out = out @ kvs"
  using assms(1,2)
proof (induction kvs arbitrary: out)
  case Nil
  show ?case
  proof (cases sections)
    case Nil
    then show ?thesis by (simp add: conf_text_def Let_def)
  next
    case (Cons c s)
    with assms(3) have c: "c = CHR ''[''" by simp
    obtain f fs where "Split s CHR 0x0A = f # fs" by (cases "Split s CHR 0x0A") simp_all
    then have sp: "Split sections CHR 0x0A = (CHR ''['' # f) # fs" by (simp add: Cons c)
    have "plain CHR ''[''" by (simp add: plain_def space1_def)
    then have "\<exists>u. TrimSpace (CHR ''['' # f) = CHR ''['' # u"
      using trim_right_keeps [of "CHR ''[''" "rev f" "[]"]
      by (auto simp: TrimSpace_def trim_left_plain intro: exI [of _ "rev _"])
    then show ?thesis by (auto simp: conf_text_def sp Let_def HasPrefix_hd)
  qed
next
  case (Cons e kvs)
  obtain k v where e: "e = (k, v)" by (cases e)
  have e_rest: "list_all conf_entry kvs" using Cons.prems(1) by simp
  have ce: "conf_entry (k, v)" using Cons.prems(1) e by simp
  then have "CHR 0x0A \<notin> set (conf_line (k, v))" by auto
  then have "Split (conf_text (e # kvs) sections) CHR 0x0A =
      conf_line (k, v) # Split (conf_text kvs sections) CHR 0x0A"
    using Split_append [of "CHR 0x0A" "conf_line (k, v)"] by (simp add: conf_text_def e)
  moreover have "\<not> has_key out k" using Cons.prems(2) by (auto simp: e map_wf_def has_key_fst)
  moreover have "conf_lines (Split (conf_text kvs sections) CHR 0x0A) (out @ [(k, v)]) = out @ e # kvs"
    using Cons.IH [of "out @ [(k, v)]"] e_rest Cons.prems(2) by (simp add: e)
  ultimately show ?case by (simp only: e conf_lines_entry [OF ce] map_put_fresh simp_thms)
qed

text \<open>
  C38. The config text of a backup reads back: every entry before the first section is in the
  map, and nothing from the snapshot sections after it.
\<close>

theorem parseConfText_roundtrip:
  assumes "list_all conf_entry kvs" and "map_wf kvs" and "sections = [] \<or> hd sections = CHR ''[''"
  shows "parseConfText (conf_text kvs sections) = kvs"
  using conf_lines_text [of kvs "[]" sections] assms by (simp add: parseConfText_def)

theorem parseConfText_roundtrip_witness:
  "parseConfText (conf_text [(''cores'', ''4''), (''memory'', ''2048'')] ''[snap1]'') =
    [(''cores'', ''4''), (''memory'', ''2048'')]"
  by (rule parseConfText_roundtrip) (simp_all add: plain_def space1_def)

text \<open>
  C37. A config the client reads holds the text of every member of the answer, the last one of a
  name; it is asked for with a GET on the path of the guest that carries the API token.
\<close>

theorem client_config:
  assumes "list_all unreserved node" and "kind \<in> {''qemu'', ''lxc''}" and "c_path c = []"
    and "up (config_path node kind vmid) (c_query c) [(''Authorization'', [''PVEAPIToken='' @ c_token c])] =
      Some (200, status, text)"
    and "data_of text = Some (Some (JObj ms))" and "in_range (JObj ms)"
  shows "\<exists>cfg. GuestConfig (client_api up c) node kind vmid = Inr cfg \<and> map_wf cfg \<and>
    (\<forall>k. map_get cfg k = map_option stringify (map_get (rev ms) k))"
proof -
  let ?p = "config_path node kind vmid"
  have "list_all unreserved kind" using assms(2) by (auto simp: unreserved_def)
  then have "list_all path_byte ?p \<and> CHR ''?'' \<notin> set ?p"
    using assms(1) FormatInt_unreserved [of vmid] unreserved_path_byte
    by (auto simp: config_path_def list_all_iff path_byte_def unreserved_def)
  then have url: "request_url c ?p = (?p, c_query c)"
    by (simp add: request_url_def Index_None assms(3) TrimRight_def encode_path_plain)
  obtain raw where raw: "any_map (JObj ms) = Some raw" using assms(6) by simp
  have "get up c ?p any_map [] = Inr raw"
    by (simp only: get_def auth_header_def url Let_def prod.case assms(4,5) option.case raw if_False simp_thms)
  then have "config_of up c ?p = Inr (stringify_all raw)" by (simp add: config_of_def)
  then have "GuestConfig (client_api up c) node kind vmid = Inr (stringify_all raw)"
    unfolding client_api_def c_GuestConfig_def api.simps PathEscape_unreserved [OF assms(1)]
    by (simp only: config_path_def)
  with any_map_members [OF raw] show ?thesis
    by (simp add: stringify_all_get stringify_all_wf)
qed

theorem client_config_witness:
  "\<exists>cfg. GuestConfig (client_api (\<lambda>p q h. Some (200, ''200 OK'', CHR ''{'' # marshal_string ''data'' @
      '':{'' @ marshal_string ''cores'' @ '':4,'' @ marshal_string ''name'' @ '':null}}''))
      \<lparr>c_path = [], c_query = [], c_token = ''t''\<rparr>) ''n1'' ''qemu'' 100 = Inr cfg \<and> map_get cfg ''cores'' = Some ''4''"
proof -
  let ?t = "CHR ''{'' # marshal_string ''data'' @
      '':{'' @ marshal_string ''cores'' @ '':4,'' @ marshal_string ''name'' @ '':null}}''"
  let ?ms = "[(''cores'', JNum ''4''), (''name'', JNull)]"
  have "data_of ?t = Some (Some (JObj ?ms))" "in_range (JObj ?ms)" by code_simp+
  moreover have "stringify (JNum ''4'') = ''4''" by code_simp
  ultimately show ?thesis
    using client_config [of "''n1''" "''qemu''" "\<lparr>c_path = [], c_query = [], c_token = ''t''\<rparr>"
        "\<lambda>p q h. Some (200, ''200 OK'', ?t)" 100 "''200 OK''" ?t ?ms]
    by (auto simp: unreserved_def)
qed

text \<open>Any answer other than 200 is an error, for every call of the interface.\<close>

lemma get_status:
  assumes "request_url c path = (p, q)" and "up p q (auth_header c) = Some (code, status, text)" and "code \<noteq> 200"
  shows "get up c path decode z = Inl (get_error path status)"
  using assms by (simp add: get_def)

text \<open>
  A name that has to be escaped is escaped twice: \<open>PathEscape\<close> and then \<open>URL.String\<close>, which takes
  \<open>u.Path\<close> for a decoded path.
\<close>

lemma request_escapes_twice:
  "request_url \<lparr>c_path = [], c_query = [], c_token = []\<rparr> (''/api2/json/pools/'' @ PathEscape ''a b'') =
    (''/api2/json/pools/a%2520b'', [])"
  by code_simp

end
