(* ===== verification/Engine.thy ===== *)
theory Engine imports Usage Pve begin

text \<open>
  \<open>internal/usage/engine.go\<close>: live usage computed from pool membership and guest configs.
  The cache of storage listings is threaded through the loops as in the code; the lemmas
  show that it changes nothing but the number of calls.
\<close>

section \<open>Volume sizes and the cache\<close>

type_synonym content_cache = "(string, disks) gomap"

definition volumeSize :: "api \<Rightarrow> string \<Rightarrow> unused_ref \<Rightarrow> content_cache \<Rightarrow> go_int \<times> content_cache" where
  "volumeSize a node ref cache =
     (let key = node @ ''/'' @ ur_Storage ref in
      case map_get cache key of
        Some cont \<Rightarrow> (int_at cont (ur_Volid ref), cache)
      | None \<Rightarrow>
          (let cont = (case StorageContent a node (ur_Storage ref) of Inl _ \<Rightarrow> [] | Inr c \<Rightarrow> c)
           in (int_at cont (ur_Volid ref), map_put key cont cache)))"

text \<open>\<open>for _, ref := range r.Unused { disk[ref.Storage] += volumeSize(cache, node, ref) }\<close>\<close>

fun add_unused :: "api \<Rightarrow> string \<Rightarrow> unused_ref list \<Rightarrow> disks \<Rightarrow> content_cache \<Rightarrow> disks \<times> content_cache" where
  "add_unused a node [] disk cache = (disk, cache)"
| "add_unused a node (ref # refs) disk cache =
     (let (n, cache') = volumeSize a node ref cache
      in add_unused a node refs (add_at (ur_Storage ref) n disk) cache')"

section \<open>Single guests\<close>

definition resourcesUsage :: "api \<Rightarrow> string \<Rightarrow> string \<Rightarrow> params \<Rightarrow> usage" where
  "resourcesUsage a node kind cfg =
     (let r = GuestResources kind cfg;
          disk0 = add_disks (rs_Disks r) [];
          (disk, _) = add_unused a node (rs_Unused r) disk0 []
      in \<lparr>u_Cores = rs_Cores r, u_MemoryMiB = rs_MemoryMiB r, u_Instances = 1, u_DiskBytes = disk\<rparr>)"

definition GuestUsage :: "api \<Rightarrow> string \<Rightarrow> string \<Rightarrow> go_int \<Rightarrow> api_error + usage" where
  "GuestUsage a node kind vmid =
     (case GuestConfig a node kind vmid of
        Inl err \<Rightarrow> Inl err
      | Inr cfg \<Rightarrow> Inr (resourcesUsage a node kind cfg))"

definition SnapshotUsage :: "api \<Rightarrow> string \<Rightarrow> string \<Rightarrow> go_int \<Rightarrow> string \<Rightarrow> api_error + usage" where
  "SnapshotUsage a node kind vmid snap =
     (case SnapshotConfig a node kind vmid snap of
        Inl err \<Rightarrow> Inl err
      | Inr cfg \<Rightarrow> Inr (ConfigUsage kind cfg))"

definition RestoreUsage :: "api \<Rightarrow> string \<Rightarrow> string \<Rightarrow> string \<Rightarrow> api_error + usage" where
  "RestoreUsage a node volume kind =
     (case ExtractConfig a node volume of
        Inl err \<Rightarrow> Inl err
      | Inr cfg \<Rightarrow> Inr (ConfigUsage kind cfg))"

section \<open>Pools\<close>

definition is_guest :: "member \<Rightarrow> bool" where
  "is_guest m = (m_Type m = ''qemu'' \<or> m_Type m = ''lxc'')"

definition PoolMemberSet :: "api \<Rightarrow> string \<Rightarrow> api_error + (go_int, bool) gomap" where
  "PoolMemberSet a poolid =
     (case PoolMembers a poolid of
        Inl err \<Rightarrow> Inl err
      | Inr members \<Rightarrow>
          Inr (fold (\<lambda>m set. if is_guest m then map_put (m_VMID m) True set else set) members []))"

fun user_usage_loop ::
    "api \<Rightarrow> member list \<Rightarrow> usage \<Rightarrow> content_cache \<Rightarrow> api_error + usage" where
  "user_usage_loop a [] u cache = Inr u"
| "user_usage_loop a (m # ms) u cache =
     (if \<not> is_guest m then user_usage_loop a ms u cache
      else case GuestConfig a (m_Node m) (m_Type m) (m_VMID m) of
        Inl err \<Rightarrow> Inl (ConfigError (m_Type m) (m_VMID m) err)
      | Inr cfg \<Rightarrow>
          (let r = GuestResources (m_Type m) cfg;
               (disk, cache') =
                 add_unused a (m_Node m) (rs_Unused r) (add_disks (rs_Disks r) (u_DiskBytes u)) cache
           in user_usage_loop a ms
                \<lparr>u_Cores = u_Cores u + rs_Cores r, u_MemoryMiB = u_MemoryMiB u + rs_MemoryMiB r,
                 u_Instances = u_Instances u + 1, u_DiskBytes = disk\<rparr> cache'))"

definition empty_usage :: usage where
  "empty_usage = \<lparr>u_Cores = 0, u_MemoryMiB = 0, u_Instances = 0, u_DiskBytes = []\<rparr>"

definition UserUsage :: "api \<Rightarrow> string \<Rightarrow> api_error + usage" where
  "UserUsage a poolid =
     (case PoolMembers a poolid of
        Inl err \<Rightarrow> Inl (PoolError poolid err)
      | Inr members \<Rightarrow> user_usage_loop a members empty_usage [])"

section \<open>What the loops compute\<close>

definition listing :: "api \<Rightarrow> string \<Rightarrow> string \<Rightarrow> disks" where
  "listing a node st = (case StorageContent a node st of Inl _ \<Rightarrow> [] | Inr c \<Rightarrow> c)"

definition volume_bytes :: "api \<Rightarrow> string \<Rightarrow> unused_ref \<Rightarrow> string \<times> go_int" where
  "volume_bytes a node ref =
     (ur_Storage ref, int_at (listing a node (ur_Storage ref)) (ur_Volid ref))"

text \<open>All disks of a guest with their sizes: the ones in the config and the unused ones.\<close>

definition guest_disks :: "api \<Rightarrow> string \<Rightarrow> params \<Rightarrow> (string \<times> go_int) list" where
  "guest_disks a node cfg = sized_disks cfg @ map (volume_bytes a node) (unused_disks cfg)"

text \<open>
  A cache entry is the listing of its node and storage. The key joins the two with a slash,
  so this needs node names without one, as PVE's are.
\<close>

definition cache_ok :: "api \<Rightarrow> content_cache \<Rightarrow> bool" where
  "cache_ok a cache = (\<forall>node st cont. CHR ''/'' \<notin> set node \<longrightarrow>
     map_get cache (node @ ''/'' @ st) = Some cont \<longrightarrow> cont = listing a node st)"

lemma slash_key_inject:
  assumes "CHR ''/'' \<notin> set n" and "CHR ''/'' \<notin> set n'"
  shows "n @ ''/'' @ s = n' @ ''/'' @ s' \<longleftrightarrow> n = n' \<and> s = s'"
proof
  assume "n @ ''/'' @ s = n' @ ''/'' @ s'"
  then have "cut_at CHR ''/'' (n @ CHR ''/'' # s) = cut_at CHR ''/'' (n' @ CHR ''/'' # s')" by simp
  then show "n = n' \<and> s = s'" by (simp only: cut_at_append [OF assms(1)] cut_at_append [OF assms(2)]) simp
qed simp

lemma cache_ok_empty [simp]: "cache_ok a []"
  by (simp add: cache_ok_def)

lemma volumeSize_correct:
  assumes "cache_ok a cache" and "CHR ''/'' \<notin> set node"
  shows "fst (volumeSize a node ref cache) = snd (volume_bytes a node ref) \<and>
    cache_ok a (snd (volumeSize a node ref cache))"
proof (cases "map_get cache (node @ ''/'' @ ur_Storage ref)")
  case None
  have "cache_ok a (map_put (node @ ''/'' @ ur_Storage ref) (listing a node (ur_Storage ref)) cache)"
    using assms slash_key_inject [OF _ assms(2)] unfolding cache_ok_def gm.get_put by (metis option.inject)
  with None show ?thesis
    by (simp add: volumeSize_def volume_bytes_def listing_def Let_def)
next
  case (Some cont)
  with assms have "cont = listing a node (ur_Storage ref)" unfolding cache_ok_def by blast
  with Some assms show ?thesis by (simp add: volumeSize_def volume_bytes_def)
qed

lemma add_unused_correct:
  assumes "cache_ok a cache" and "CHR ''/'' \<notin> set node"
  shows "fst (add_unused a node refs disk cache) =
      fold (\<lambda>(st, b). add_at st b) (map (volume_bytes a node) refs) disk \<and>
    cache_ok a (snd (add_unused a node refs disk cache))"
  using assms(1)
proof (induction refs arbitrary: disk cache)
  case Nil
  then show ?case by simp
next
  case (Cons ref refs)
  obtain n c' where v: "volumeSize a node ref cache = (n, c')" by fastforce
  with volumeSize_correct [OF Cons.prems assms(2), of ref]
  have "n = snd (volume_bytes a node ref)" "cache_ok a c'" by simp_all
  with Cons.IH [of c' "add_at (ur_Storage ref) n disk"] v show ?case
    by (simp add: volume_bytes_def)
qed

lemma add_unused_wf: "map_wf disk \<Longrightarrow> map_wf (fst (add_unused a node refs disk cache))"
  by (induction a node refs disk cache rule: add_unused.induct)
    (auto simp: gc.wf_add_at split: prod.split)

lemma bytes_on_Nil [simp]: "bytes_on st [] = 0"
  by (simp add: bytes_on_def)

lemma guest_scan_correct:
  assumes "cache_ok a cache" and "CHR ''/'' \<notin> set node"
    and "add_unused a node (rs_Unused (GuestResources kind cfg))
      (add_disks (rs_Disks (GuestResources kind cfg)) disk) cache = (disk', cache')"
  shows "int_at disk' st = int_at disk st + bytes_on st (guest_disks a node cfg)"
    and "cache_ok a cache'"
proof -
  let ?disk = "add_disks (rs_Disks (GuestResources kind cfg)) disk"
  have corr: "disk' = fold (\<lambda>(st, b). add_at st b) (map (volume_bytes a node) (unused_disks cfg)) ?disk"
    "cache_ok a cache'"
    using add_unused_correct [OF assms(1,2), of "rs_Unused (GuestResources kind cfg)" ?disk] assms(3)
    by (simp_all add: GuestResources_parts(4))
  have "int_at disk' st = int_at ?disk st + bytes_on st (map (volume_bytes a node) (unused_disks cfg))"
    unfolding corr(1) by (simp only: gc.at_add_all bytes_on_def)
  then show "int_at disk' st = int_at disk st + bytes_on st (guest_disks a node cfg)"
    by (simp only: add_disks_at GuestResources_disks_wf GuestResources_disk_at guest_disks_def
        bytes_on_append add.assoc)
  show "cache_ok a cache'" by (rule corr(2))
qed

lemma resourcesUsage_parts:
  assumes "CHR ''/'' \<notin> set node"
  shows "u_Cores (resourcesUsage a node kind cfg) = guest_cores kind cfg"
    and "u_MemoryMiB (resourcesUsage a node kind cfg) = guest_memory cfg"
    and "u_Instances (resourcesUsage a node kind cfg) = 1"
    and "int_at (u_DiskBytes (resourcesUsage a node kind cfg)) st = bytes_on st (guest_disks a node cfg)"
  using guest_scan_correct(1) [OF cache_ok_empty assms, where kind = kind and cfg = cfg and disk = "[]"]
  by (simp_all add: resourcesUsage_def Let_def GuestResources_parts(1,2) split: prod.split)

section \<open>The pool sum\<close>

text \<open>The guests of a pool with their configs, or the first error.\<close>

fun guest_configs :: "api \<Rightarrow> member list \<Rightarrow> api_error + (member \<times> params) list" where
  "guest_configs a [] = Inr []"
| "guest_configs a (m # ms) =
     (if \<not> is_guest m then guest_configs a ms
      else case GuestConfig a (m_Node m) (m_Type m) (m_VMID m) of
        Inl err \<Rightarrow> Inl (ConfigError (m_Type m) (m_VMID m) err)
      | Inr cfg \<Rightarrow>
          (case guest_configs a ms of Inl err \<Rightarrow> Inl err | Inr gs \<Rightarrow> Inr ((m, cfg) # gs)))"

definition plain_nodes :: "member list \<Rightarrow> bool" where
  "plain_nodes ms = (\<forall>m \<in> set ms. CHR ''/'' \<notin> set (m_Node m))"

lemma user_usage_loop_error:
  "user_usage_loop a ms u cache = Inl err \<longleftrightarrow> guest_configs a ms = Inl err"
  by (induction a ms u cache rule: user_usage_loop.induct)
    (auto simp: Let_def split: sum.splits prod.splits)

lemma user_usage_loop_sum:
  assumes "user_usage_loop a ms u cache = Inr v" and "guest_configs a ms = Inr gs"
    and "cache_ok a cache" and "plain_nodes ms"
  shows "u_Cores v = u_Cores u + (\<Sum>(m, cfg) \<leftarrow> gs. guest_cores (m_Type m) cfg) \<and>
    u_MemoryMiB v = u_MemoryMiB u + (\<Sum>(m, cfg) \<leftarrow> gs. guest_memory cfg) \<and>
    u_Instances v = u_Instances u + of_nat (length gs) \<and>
    int_at (u_DiskBytes v) st = int_at (u_DiskBytes u) st +
      (\<Sum>(m, cfg) \<leftarrow> gs. bytes_on st (guest_disks a (m_Node m) cfg))"
  using assms
proof (induction ms arbitrary: u cache gs)
  case Nil
  then show ?case by simp
next
  case (Cons m ms)
  have nodes: "CHR ''/'' \<notin> set (m_Node m)" "plain_nodes ms"
    using Cons.prems(4) by (simp_all add: plain_nodes_def)
  show ?case
  proof (cases "is_guest m")
    case False
    with Cons.prems nodes Cons.IH [of u cache gs] show ?thesis by simp
  next
    case True
    then obtain cfg gs' where cfg: "GuestConfig a (m_Node m) (m_Type m) (m_VMID m) = Inr cfg"
      and gs': "guest_configs a ms = Inr gs'" and gs: "gs = (m, cfg) # gs'"
      using Cons.prems(2) by (auto split: sum.splits)
    let ?r = "GuestResources (m_Type m) cfg"
    obtain disk cache' where scan: "add_unused a (m_Node m) (rs_Unused ?r)
        (add_disks (rs_Disks ?r) (u_DiskBytes u)) cache = (disk, cache')"
      by fastforce
    let ?u = "\<lparr>u_Cores = u_Cores u + rs_Cores ?r, u_MemoryMiB = u_MemoryMiB u + rs_MemoryMiB ?r,
      u_Instances = u_Instances u + 1, u_DiskBytes = disk\<rparr>"
    have "user_usage_loop a ms ?u cache' = Inr v"
      using Cons.prems(1) True cfg scan by (simp add: Let_def)
    from Cons.IH [OF this gs' guest_scan_correct(2) [OF Cons.prems(3) nodes(1) scan] nodes(2)]
    show ?thesis
      using guest_scan_correct(1) [OF Cons.prems(3) nodes(1) scan, of st]
      by (simp add: gs GuestResources_parts(1,2) add.assoc)
  qed
qed

lemma ex_Inr_iff: "(\<exists>x. s = Inr x) \<longleftrightarrow> (\<forall>e. s \<noteq> Inl e)"
  by (cases s) auto

lemma guest_configs_append:
  "guest_configs a (ms @ ns) =
    (case guest_configs a ms of Inl err \<Rightarrow> Inl err
     | Inr gs \<Rightarrow> (case guest_configs a ns of Inl err \<Rightarrow> Inl err | Inr hs \<Rightarrow> Inr (gs @ hs)))"
  by (induction a ms rule: guest_configs.induct) (auto split: sum.splits)

lemma guest_configs_total:
  "(\<exists>gs. guest_configs a ms = Inr gs) \<longleftrightarrow>
    (\<forall>m \<in> set ms. is_guest m \<longrightarrow> (\<exists>cfg. GuestConfig a (m_Node m) (m_Type m) (m_VMID m) = Inr cfg))"
  by (induction a ms rule: guest_configs.induct) (auto split: sum.splits)

lemma guest_configs_length:
  "guest_configs a ms = Inr gs \<Longrightarrow> map fst gs = filter is_guest ms"
  by (induction ms arbitrary: gs) (auto split: if_splits sum.splits)

lemma UserUsage_loop: "PoolMembers a pool = Inr ms \<Longrightarrow> UserUsage a pool = user_usage_loop a ms empty_usage []"
  by (simp add: UserUsage_def)

lemma UserUsage_Inr:
  "(\<exists>u. UserUsage a pool = Inr u) \<longleftrightarrow>
    (\<exists>ms gs. PoolMembers a pool = Inr ms \<and> guest_configs a ms = Inr gs)"
proof (cases "PoolMembers a pool")
  case (Inr ms)
  then show ?thesis
    using user_usage_loop_error [of a ms empty_usage "[]"]
    by (cases "guest_configs a ms"; cases "user_usage_loop a ms empty_usage []") (auto simp: UserUsage_def)
qed (simp add: UserUsage_def)

text \<open>What an account is in the end: cores, memory, instances and the bytes on a storage.\<close>

definition pool_cores :: "(member \<times> params) list \<Rightarrow> go_int" where
  "pool_cores gs = (\<Sum>(m, cfg) \<leftarrow> gs. guest_cores (m_Type m) cfg)"

definition pool_memory :: "(member \<times> params) list \<Rightarrow> go_int" where
  "pool_memory gs = (\<Sum>(m, cfg) \<leftarrow> gs. guest_memory cfg)"

definition pool_bytes :: "api \<Rightarrow> (member \<times> params) list \<Rightarrow> string \<Rightarrow> go_int" where
  "pool_bytes a gs st = (\<Sum>(m, cfg) \<leftarrow> gs. bytes_on st (guest_disks a (m_Node m) cfg))"

lemma UserUsage_parts:
  assumes "PoolMembers a pool = Inr ms" and "guest_configs a ms = Inr gs" and "plain_nodes ms"
  shows "\<exists>u. UserUsage a pool = Inr u \<and> u_Cores u = pool_cores gs \<and> u_MemoryMiB u = pool_memory gs \<and>
    u_Instances u = of_nat (length gs) \<and> (\<forall>st. int_at (u_DiskBytes u) st = pool_bytes a gs st)"
proof -
  obtain u where u: "UserUsage a pool = Inr u" using UserUsage_Inr [of a pool] assms by blast
  with assms(1) have "user_usage_loop a ms empty_usage [] = Inr u" by (simp add: UserUsage_def)
  from user_usage_loop_sum [OF this assms(2) cache_ok_empty assms(3)] u show ?thesis
    by (simp add: empty_usage_def pool_cores_def pool_memory_def pool_bytes_def)
qed

text \<open>
  C11. The usage of a pool is the sum over its qemu and lxc members of the cores, memory, and
  disks of their configs, unused volumes counted with their listed sizes; other members count
  nothing. The cache of storage listings does not show in the result.
\<close>

theorem UserUsage_is_sum:
  assumes "PoolMembers a pool = Inr ms" and "guest_configs a ms = Inr gs" and "plain_nodes ms"
  shows "\<exists>u. UserUsage a pool = Inr u \<and>
    u_Cores u = (\<Sum>(m, cfg) \<leftarrow> gs. guest_cores (m_Type m) cfg) \<and>
    u_MemoryMiB u = (\<Sum>(m, cfg) \<leftarrow> gs. guest_memory cfg) \<and>
    u_Instances u = of_nat (length (filter is_guest ms)) \<and>
    (\<forall>st. int_at (u_DiskBytes u) st = (\<Sum>(m, cfg) \<leftarrow> gs. bytes_on st (guest_disks a (m_Node m) cfg)))"
  using UserUsage_parts [OF assms] guest_configs_length [OF assms(2), THEN arg_cong [of _ _ length]]
  by (simp add: pool_cores_def pool_memory_def pool_bytes_def)

text \<open>A small cluster for the examples: two guests and a storage in one pool.\<close>

definition demo_api :: api where
  "demo_api = \<lparr>
     PoolMembers = (\<lambda>p. if p = ''uq-x'' then Inr
       [\<lparr>m_VMID = 100, m_Node = ''n1'', m_Type = ''qemu''\<rparr>,
        \<lparr>m_VMID = 101, m_Node = ''n1'', m_Type = ''lxc''\<rparr>,
        \<lparr>m_VMID = 0, m_Node = ''n1'', m_Type = ''storage''\<rparr>]
       else Inl (ApiError ''404'')),
     GuestConfig = (\<lambda>node kind vmid.
       if vmid = 100 then Inr [(''cores'', ''4''), (''memory'', ''4096''),
         (''scsi0'', ''tank:vm-100-disk-0,size=50G''), (''unused0'', ''tank:vm-100-disk-9'')]
       else if vmid = 101 then Inr [(''cores'', ''2''), (''memory'', ''2048''),
         (''rootfs'', ''tank:subvol-101-disk-0,size=10G'')]
       else Inl (ApiError ''404'')),
     StorageContent = (\<lambda>node st.
       if st = ''tank'' then Inr [(''tank:vm-100-disk-9'', 21474836480)] else Inl (ApiError ''500'')),
     SnapshotConfig = (\<lambda>node kind vmid snap.
       if snap = ''s1'' then Inr [(''cores'', ''8''), (''memory'', ''4096'')] else Inl (ApiError ''404'')),
     ExtractConfig = (\<lambda>node vol. Inl (ApiError ''404''))\<rparr>"

theorem UserUsage_is_sum_witness:
  "\<exists>u. UserUsage demo_api ''uq-x'' = Inr u \<and> u_Instances u = 2"
proof -
  let ?ms = "[\<lparr>m_VMID = 100, m_Node = ''n1'', m_Type = ''qemu''\<rparr>,
        \<lparr>m_VMID = 101, m_Node = ''n1'', m_Type = ''lxc''\<rparr>,
        \<lparr>m_VMID = 0, m_Node = ''n1'', m_Type = ''storage''\<rparr>]"
  have ms: "PoolMembers demo_api ''uq-x'' = Inr ?ms" by (simp add: demo_api_def)
  obtain gs where gs: "guest_configs demo_api ?ms = Inr gs"
    by (simp add: demo_api_def is_guest_def)
  have "plain_nodes ?ms" by (simp add: plain_nodes_def)
  from UserUsage_is_sum [OF ms gs this] show ?thesis by (auto simp: is_guest_def)
qed

text \<open>
  C26. The usage of a pool is an error exactly when the membership or the config of one of its
  qemu and lxc members cannot be read: an account is never made from part of the pool.
\<close>

theorem UserUsage_error_iff:
  "(\<exists>err. UserUsage a pool = Inl err) \<longleftrightarrow>
    (\<exists>err. PoolMembers a pool = Inl err) \<or>
    (\<exists>ms m err. PoolMembers a pool = Inr ms \<and> m \<in> set ms \<and> is_guest m \<and>
      GuestConfig a (m_Node m) (m_Type m) (m_VMID m) = Inl err)"
proof -
  have "(\<exists>err. UserUsage a pool = Inl err) \<longleftrightarrow> \<not> (\<exists>u. UserUsage a pool = Inr u)"
    by (cases "UserUsage a pool") auto
  also have "\<dots> \<longleftrightarrow> \<not> (\<exists>ms. PoolMembers a pool = Inr ms \<and>
    (\<forall>m \<in> set ms. is_guest m \<longrightarrow> (\<exists>cfg. GuestConfig a (m_Node m) (m_Type m) (m_VMID m) = Inr cfg)))"
    by (simp add: UserUsage_Inr guest_configs_total)
  finally show ?thesis
    by (cases "PoolMembers a pool") (auto simp: ex_Inr_iff)
qed

text \<open>
  A guest adds to its pool exactly the footprint the engine reports for it alone: if it
  joins the pool, every dimension of the usage grows by the figures of \<open>GuestUsage\<close>, which are
  the ones a clone of it is charged.
\<close>

theorem UserUsage_add_guest:
  assumes "PoolMembers a pool = Inr ms" and "UserUsage a pool = Inr u"
    and "a' = a\<lparr>PoolMembers := (PoolMembers a)(pool := Inr (ms @ [m]))\<rparr>"
    and "is_guest m" and "GuestUsage a (m_Node m) (m_Type m) (m_VMID m) = Inr g" and "plain_nodes (ms @ [m])"
  shows "\<exists>u'. UserUsage a' pool = Inr u' \<and> u_Cores u' = u_Cores u + u_Cores g \<and>
    u_MemoryMiB u' = u_MemoryMiB u + u_MemoryMiB g \<and> u_Instances u' = u_Instances u + u_Instances g \<and>
    (\<forall>st. int_at (u_DiskBytes u') st = int_at (u_DiskBytes u) st + int_at (u_DiskBytes g) st)"
proof -
  obtain gs where gs: "guest_configs a ms = Inr gs"
    using assms(1,2) UserUsage_Inr [of a pool] by auto
  obtain cfg where cfg: "GuestConfig a (m_Node m) (m_Type m) (m_VMID m) = Inr cfg"
    and g: "g = resourcesUsage a (m_Node m) (m_Type m) cfg"
    using assms(5) by (auto simp: GuestUsage_def split: sum.splits)
  have node: "CHR ''/'' \<notin> set (m_Node m)" and nodes: "plain_nodes ms"
    using assms(6) by (simp_all add: plain_nodes_def)
  have same: "guest_configs a' ns = guest_configs a ns" for ns
    unfolding assms(3) by (induction ns) (auto split: sum.split)
  have disks: "guest_disks a' = guest_disks a"
    unfolding assms(3) by (simp add: guest_disks_def volume_bytes_def listing_def fun_eq_iff)
  have "PoolMembers a' pool = Inr (ms @ [m])" by (simp add: assms(3))
  moreover have "guest_configs a' (ms @ [m]) = Inr (gs @ [(m, cfg)])"
    unfolding same using assms(4) gs cfg by (simp add: guest_configs_append)
  ultimately obtain u' where u': "UserUsage a' pool = Inr u'" "u_Cores u' = pool_cores (gs @ [(m, cfg)])"
      "u_MemoryMiB u' = pool_memory (gs @ [(m, cfg)])"
      "u_Instances u' = of_nat (length (gs @ [(m, cfg)]))"
      "\<forall>st. int_at (u_DiskBytes u') st = pool_bytes a' (gs @ [(m, cfg)]) st"
    using UserUsage_parts assms(6) by blast
  moreover obtain "u_Cores u = pool_cores gs" "u_MemoryMiB u = pool_memory gs"
      "u_Instances u = of_nat (length gs)" "\<forall>st. int_at (u_DiskBytes u) st = pool_bytes a gs st"
    using UserUsage_parts [OF assms(1) gs nodes] assms(2) by auto
  ultimately show ?thesis
    by (simp add: g resourcesUsage_parts [OF node] pool_cores_def pool_memory_def pool_bytes_def disks)
qed

theorem UserUsage_add_guest_witness:
  "\<exists>u'. UserUsage (demo_api\<lparr>PoolMembers := (PoolMembers demo_api)(''uq-x'' :=
      Inr [\<lparr>m_VMID = 101, m_Node = ''n1'', m_Type = ''lxc''\<rparr>])\<rparr>) ''uq-x'' = Inr u' \<and>
    u_Instances u' = 1"
proof -
  let ?a = "demo_api\<lparr>PoolMembers := (PoolMembers demo_api)(''uq-x'' := Inr [])\<rparr>"
  let ?m = "\<lparr>m_VMID = 101, m_Node = ''n1'', m_Type = ''lxc''\<rparr>"
  have "UserUsage ?a ''uq-x'' = Inr empty_usage" by (simp add: UserUsage_def)
  moreover obtain g where "GuestUsage ?a (m_Node ?m) (m_Type ?m) (m_VMID ?m) = Inr g" "u_Instances g = 1"
    by (simp add: GuestUsage_def demo_api_def resourcesUsage_def Let_def split: prod.split)
  ultimately show ?thesis
    using UserUsage_add_guest [of ?a "''uq-x''" "[]" empty_usage
        "?a\<lparr>PoolMembers := (PoolMembers ?a)(''uq-x'' := Inr ([] @ [?m]))\<rparr>" ?m g]
    by (auto simp: is_guest_def plain_nodes_def empty_usage_def)
qed

lemma PoolMemberSet_loop:
  "map_get (fold (\<lambda>m set. if is_guest m then map_put (m_VMID m) True set else set) ms s) v =
    (if \<exists>m \<in> set ms. is_guest m \<and> m_VMID m = v then Some True else map_get s v)"
  by (induction ms arbitrary: s) (auto simp: gm.get_put)

text \<open>
  A storage listing that fails is read as empty: unused volumes on that storage count nothing
  and no error is reported.
\<close>

lemma failed_listing_counts_zero:
  assumes "StorageContent a node (ur_Storage ref) = Inl err"
  shows "volumeSize a node ref [] = (0, [(node @ ''/'' @ ur_Storage ref, [])])"
  using assms by (simp add: volumeSize_def)

end
