(* ===== verification/Delta.thy ===== *)
theory Delta imports Usage begin

text \<open>
  \<open>internal/admission/delta.go\<close>: the resource increase a request would cause. The loops over
  Go maps are folds over the entries; what they give does not depend on the order.
\<close>

section \<open>Data and helpers\<close>

record delta =
  d_Cores :: go_int
  d_MemoryMiB :: go_int
  d_Instances :: go_int
  d_DiskBytes :: disks

definition newDelta :: delta where
  "newDelta = \<lparr>d_Cores = 0, d_MemoryMiB = 0, d_Instances = 0, d_DiskBytes = []\<rparr>"

definition positive :: "delta \<Rightarrow> bool" where
  "positive d =
     (if 0 <s d_Cores d \<or> 0 <s d_MemoryMiB d \<or> 0 <s d_Instances d then True
      else list_ex (\<lambda>(_, b). 0 <s b) (d_DiskBytes d))"

definition atoiDef :: "string \<Rightarrow> go_int \<Rightarrow> go_int" where
  "atoiDef s def =
     (if s = [] then def else case Atoi (TrimSpace s) of Some n \<Rightarrow> n | None \<Rightarrow> def)"

definition totalCores :: "string \<Rightarrow> params \<Rightarrow> go_int" where
  "totalCores kind cfg =
     (if kind = ''qemu'' then atoiDef (str_at cfg ''sockets'') 1 * atoiDef (str_at cfg ''cores'') 1
      else atoiDef (str_at cfg ''cores'') 0)"

definition merge :: "params \<Rightarrow> params \<Rightarrow> params" where
  "merge base over =
     (let out = fold (\<lambda>(k, v). map_put k v) base [] in fold (\<lambda>(k, v). map_put k v) over out)"

definition hasAny :: "params \<Rightarrow> string list \<Rightarrow> bool" where
  "hasAny m keys = list_ex (has_key m) keys"

section \<open>Disk parameters\<close>

record create_disk =
  cd_storage :: string
  cd_bytes :: go_int
  cd_cdrom :: bool

definition create_option :: "string \<Rightarrow> create_disk \<Rightarrow> create_disk" where
  "create_option f0 d =
     (let f = TrimSpace f0;
          d1 = (if f = ''media=cdrom'' then d\<lparr>cd_cdrom := True\<rparr> else d)
      in case CutPrefix f ''size='' of
           None \<Rightarrow> d1
         | Some s \<Rightarrow> (case ParseSize s of None \<Rightarrow> d1 | Some n \<Rightarrow> d1\<lparr>cd_bytes := n\<rparr>))"

definition parseCreateDisk :: "string \<Rightarrow> create_disk" where
  "parseCreateDisk v =
     (let fields = Split v CHR '',''; first = TrimSpace (hd fields);
          none = \<lparr>cd_storage = [], cd_bytes = 0, cd_cdrom = False\<rparr>
      in if first = [] \<or> first = ''none'' then none
         else
          (let (st, rest, ok) = Cut first CHR '':'' in
           if \<not> ok \<or> st = [] then none
           else
            (let d = fold create_option (tl fields) (none\<lparr>cd_storage := st\<rparr>) in
             if cd_bytes d = 0 \<and> \<not> cd_cdrom d then
               (case Atoi (TrimSpace rest) of
                  Some n \<Rightarrow> if 0 <s n then d\<lparr>cd_bytes := n * 2 ^ 30\<rparr> else d
                | None \<Rightarrow> d)
             else d)))"

text \<open>The third argument is the current config, \<open>None\<close> for a \<open>nil\<close> map.\<close>

definition addDiskParams :: "disks \<Rightarrow> params \<Rightarrow> params option \<Rightarrow> disks" where
  "addDiskParams dst p cur =
     fold (\<lambda>(k, v) dst.
       if \<not> IsDiskKey k then dst
       else if (case cur of Some c \<Rightarrow> has_key c k | None \<Rightarrow> False) then dst
       else
        (let d = parseCreateDisk v in
         if cd_cdrom d \<or> cd_storage d = [] then dst
         else add_at (cd_storage d) (cd_bytes d) dst)) p dst"

section \<open>The deltas\<close>

definition CreateDelta :: "string \<Rightarrow> params \<Rightarrow> delta" where
  "CreateDelta kind p =
     \<lparr>d_Cores =
        (if kind = ''qemu'' then atoiDef (str_at p ''sockets'') 1 * atoiDef (str_at p ''cores'') 1
         else atoiDef (str_at p ''cores'') 0),
      d_MemoryMiB = atoiDef (str_at p ''memory'') 512,
      d_Instances = 1,
      d_DiskBytes = addDiskParams [] p None\<rparr>"

definition ConfigDelta :: "string \<Rightarrow> params \<Rightarrow> params \<Rightarrow> delta" where
  "ConfigDelta kind p cur =
     \<lparr>d_Cores =
        (if hasAny p [''sockets'', ''cores''] then totalCores kind (merge cur p) - totalCores kind cur
         else 0),
      d_MemoryMiB =
        (if has_key p ''memory'' then
           atoiDef (str_at p ''memory'') 512 - atoiDef (str_at cur ''memory'') 512
         else 0),
      d_Instances = 0,
      d_DiskBytes = addDiskParams [] p (Some cur)\<rparr>"

definition ResizeDelta :: "params \<Rightarrow> params \<Rightarrow> delta" where
  "ResizeDelta p cur =
     (let disk = str_at p ''disk''; sz = str_at p ''size'' in
      if disk = [] \<or> sz = [] then newDelta
      else
       (let ds = ParseDisk (str_at cur disk); st = ds_storage ds in
        if st = [] then newDelta
        else case CutPrefix sz ''+'' of
          Some rest \<Rightarrow>
            (case ParseSize rest of
               Some n \<Rightarrow> newDelta\<lparr>d_DiskBytes := map_put st n []\<rparr>
             | None \<Rightarrow> newDelta)
        | None \<Rightarrow>
            (case ParseSize sz of
               Some n \<Rightarrow>
                 if ds_hasSize ds \<and> ds_size ds <s n
                 then newDelta\<lparr>d_DiskBytes := map_put st (n - ds_size ds) []\<rparr>
                 else newDelta
             | None \<Rightarrow> newDelta)))"

definition usageToDelta :: "usage \<Rightarrow> delta" where
  "usageToDelta u =
     \<lparr>d_Cores = u_Cores u, d_MemoryMiB = u_MemoryMiB u, d_Instances = u_Instances u,
      d_DiskBytes = fold (\<lambda>(st, b). map_put st b) (u_DiskBytes u) []\<rparr>"

definition CloneDelta :: "usage \<Rightarrow> params \<Rightarrow> delta" where
  "CloneDelta src params =
     (let d = (usageToDelta src)\<lparr>d_Instances := 1\<rparr>; st = str_at params ''storage'' in
      if st \<noteq> [] then
        d\<lparr>d_DiskBytes := [(st, fold (\<lambda>(_, b) total. total + b) (d_DiskBytes d) 0)]\<rparr>
      else d)"

definition IncreaseDelta :: "usage \<Rightarrow> usage \<Rightarrow> delta" where
  "IncreaseDelta target current =
     \<lparr>d_Cores = (if u_Cores current <s u_Cores target then u_Cores target - u_Cores current else 0),
      d_MemoryMiB =
        (if u_MemoryMiB current <s u_MemoryMiB target then u_MemoryMiB target - u_MemoryMiB current else 0),
      d_Instances = 0,
      d_DiskBytes =
        fold (\<lambda>(st, tb) out.
          if int_at (u_DiskBytes current) st <s tb
          then map_put st (tb - int_at (u_DiskBytes current) st) out else out) (u_DiskBytes target) []\<rparr>"

definition MoveDelta :: "string \<Rightarrow> params \<Rightarrow> params \<Rightarrow> delta" where
  "MoveDelta kind params cur =
     (let key = (if str_at params ''disk'' = [] then str_at params ''volume'' else str_at params ''disk'');
          target = str_at params ''storage''
      in if key = [] \<or> target = [] then newDelta
         else
          (let ds = ParseDisk (str_at cur key) in
           if ds_storage ds = target then newDelta
           else if ds_hasSize ds then newDelta\<lparr>d_DiskBytes := map_put target (ds_size ds) []\<rparr>
           else newDelta))"

definition StorageAllocDelta :: "string \<Rightarrow> params \<Rightarrow> delta" where
  "StorageAllocDelta storage params =
     (if storage = [] then newDelta
      else case ParseSize (str_at params ''size'') of
        Some n \<Rightarrow> if 0 <s n then newDelta\<lparr>d_DiskBytes := map_put storage n []\<rparr> else newDelta
      | None \<Rightarrow> newDelta)"

section \<open>What the loops give\<close>

text \<open>The disks a request adds: storage and size of every disk parameter that is new.\<close>

fun new_disk :: "params option \<Rightarrow> string \<times> string \<Rightarrow> (string \<times> go_int) list" where
  "new_disk cur (k, v) =
     (let d = parseCreateDisk v in
      if IsDiskKey k \<and> \<not> (case cur of Some c \<Rightarrow> has_key c k | None \<Rightarrow> False)
        \<and> \<not> cd_cdrom d \<and> cd_storage d \<noteq> []
      then [(cd_storage d, cd_bytes d)] else [])"

definition new_disks :: "params option \<Rightarrow> params \<Rightarrow> (string \<times> go_int) list" where
  "new_disks cur p = concat (map (new_disk cur) p)"

lemma addDiskParams_fold:
  "addDiskParams dst p cur = fold (\<lambda>(st, b). add_at st b) (new_disks cur p) dst"
proof (induction p arbitrary: dst)
  case Nil
  then show ?case by (simp add: addDiskParams_def new_disks_def)
next
  case (Cons e p)
  then show ?case by (cases e) (auto simp: addDiskParams_def new_disks_def Let_def)
qed

lemma addDiskParams_at:
  "int_at (addDiskParams dst p cur) st = int_at dst st + bytes_on st (new_disks cur p)"
  by (simp add: addDiskParams_fold gc.at_add_all bytes_on_def)

lemma addDiskParams_wf: "map_wf dst \<Longrightarrow> map_wf (addDiskParams dst p cur)"
  by (simp add: addDiskParams_fold gc.wf_add_all)

lemma atoiDef_same: "atoiDef = atoiDefault"
  by (simp add: fun_eq_iff atoiDef_def atoiDefault_def)

lemma totalCores_same: "totalCores = guest_cores"
  by (simp add: fun_eq_iff totalCores_def guest_cores_def atoiDef_same)

lemma puts_get:
  assumes "map_wf ps"
  shows "map_get (fold (\<lambda>(k, v). map_put k v) ps m) k =
    (if has_key ps k then map_get ps k else map_get m k)"
  using gm.put_all_get [of ps m k] assms
  unfolding map_wf_def map_get_def [symmetric] has_key_def by (auto split: option.split)

lemma merge_get:
  assumes "map_wf base" and "map_wf over"
  shows "map_get (merge base over) k = (if has_key over k then map_get over k else map_get base k)"
  using assms by (simp add: merge_def puts_get has_key_def)

lemma merge_str_at:
  assumes "map_wf base" and "map_wf over"
  shows "str_at (merge base over) k = (if has_key over k then str_at over k else str_at base k)"
  using merge_get [OF assms] by (simp add: str_at_def)

lemma CreateDelta_parts:
  "d_Cores (CreateDelta kind p) = guest_cores kind p"
  "d_MemoryMiB (CreateDelta kind p) = guest_memory p"
  "d_Instances (CreateDelta kind p) = 1"
  "int_at (d_DiskBytes (CreateDelta kind p)) st = bytes_on st (new_disks None p)"
  "map_wf (d_DiskBytes (CreateDelta kind p))"
  by (simp_all add: CreateDelta_def guest_cores_def guest_memory_def atoiDef_same addDiskParams_at addDiskParams_wf)

lemma ConfigDelta_cores:
  assumes "map_wf p" and "map_wf cur"
  shows "guest_cores kind (merge cur p) = guest_cores kind cur + d_Cores (ConfigDelta kind p cur)"
proof (cases "hasAny p [''sockets'', ''cores'']")
  case True
  then show ?thesis by (simp add: ConfigDelta_def totalCores_same)
next
  case False
  then show ?thesis
    by (simp add: ConfigDelta_def hasAny_def guest_cores_def merge_str_at [OF assms(2,1)])
qed

lemma ConfigDelta_memory:
  assumes "map_wf p" and "map_wf cur"
  shows "guest_memory (merge cur p) = guest_memory cur + d_MemoryMiB (ConfigDelta kind p cur)"
  by (simp add: ConfigDelta_def guest_memory_def atoiDef_same merge_str_at [OF assms(2,1)])

text \<open>
  C12. A config edit is charged exactly what it changes: with the parameters merged into the
  current config, the cores and the memory that the accounting counts grow by the delta, 64-bit
  wrap-around included, and every disk whose key the current config does not have is charged.
\<close>

theorem ConfigDelta_exact:
  assumes "map_wf p" and "map_wf cur"
  shows "rs_Cores (GuestResources kind (merge cur p)) =
      rs_Cores (GuestResources kind cur) + d_Cores (ConfigDelta kind p cur) \<and>
    rs_MemoryMiB (GuestResources kind (merge cur p)) =
      rs_MemoryMiB (GuestResources kind cur) + d_MemoryMiB (ConfigDelta kind p cur) \<and>
    d_Instances (ConfigDelta kind p cur) = 0 \<and>
    int_at (d_DiskBytes (ConfigDelta kind p cur)) st = bytes_on st (new_disks (Some cur) p)"
  using ConfigDelta_cores [OF assms] ConfigDelta_memory [OF assms]
  by (simp add: GuestResources_parts) (simp add: ConfigDelta_def addDiskParams_at)

theorem ConfigDelta_exact_witness:
  "rs_Cores (GuestResources ''qemu'' (merge [(''cores'', ''2''), (''sockets'', ''2'')] [(''cores'', ''4'')])) =
    rs_Cores (GuestResources ''qemu'' [(''cores'', ''2''), (''sockets'', ''2'')]) +
    d_Cores (ConfigDelta ''qemu'' [(''cores'', ''4'')] [(''cores'', ''2''), (''sockets'', ''2'')])"
  using ConfigDelta_exact [of "[(''cores'', ''4'')]" "[(''cores'', ''2''), (''sockets'', ''2'')]" "''qemu''"] by simp

text \<open>An option of a disk that does not say anything about its size or its medium.\<close>

lemma create_option_plain:
  assumes "TrimSpace f \<noteq> ''media=cdrom''" and "\<not> HasPrefix (TrimSpace f) ''size=''"
  shows "create_option f d = d"
  using assms by (simp add: create_option_def HasPrefix_def Let_def)

definition plain_option :: "string \<Rightarrow> bool" where
  "plain_option f =
     (CHR '','' \<notin> set f \<and> TrimSpace f \<noteq> ''media=cdrom'' \<and> \<not> HasPrefix (TrimSpace f) ''size='')"

lemma fold_create_option: "list_all plain_option fs \<Longrightarrow> fold create_option fs d = d"
  by (induction fs arbitrary: d) (auto simp: plain_option_def create_option_plain)

definition storage_id :: "string \<Rightarrow> bool" where
  "storage_id st = (st \<noteq> [] \<and> (\<forall>c \<in> set st. plain c \<and> c \<noteq> CHR '','' \<and> c \<noteq> CHR '':''))"

text \<open>The disk parameter of a create call: so many GiB on a storage, with options.\<close>

definition new_disk_param :: "string \<Rightarrow> nat \<Rightarrow> string list \<Rightarrow> string" where
  "new_disk_param st n opts = join CHR '','' ((st @ CHR '':'' # show_nat n) # opts)"

lemma show_nat_plain: "\<forall>c \<in> set (show_nat n). plain c \<and> c \<noteq> CHR '','' \<and> is_digit c"
  using show_nat_digits [of n] is_digit_plain by (auto simp: list_all_iff is_digit_def)

lemma Atoi_show_nat:
  "n < 9223372036854775808 \<Longrightarrow> Atoi (TrimSpace (show_nat n)) = Some (word_of_int (int n))"
  using show_nat_plain [of n] by (simp add: TrimSpace_all_plain Atoi_def ParseInt_show_nat)

definition volume_text :: "string \<Rightarrow> bool" where
  "volume_text vol = (\<forall>c \<in> set vol. plain c \<and> c \<noteq> CHR '','')"

lemma parseCreateDisk_fields:
  assumes "storage_id st" and "volume_text vol" and "\<forall>f \<in> set fs. CHR '','' \<notin> set f"
  shows "parseCreateDisk (join CHR '','' ((st @ CHR '':'' # vol) # fs)) =
    (let d = fold create_option fs \<lparr>cd_storage = st, cd_bytes = 0, cd_cdrom = False\<rparr> in
     if cd_bytes d = 0 \<and> \<not> cd_cdrom d then
       (case Atoi vol of Some n \<Rightarrow> if 0 <s n then d\<lparr>cd_bytes := n * 2 ^ 30\<rparr> else d | None \<Rightarrow> d)
     else d)"
proof -
  let ?first = "st @ CHR '':'' # vol"
  have st: "st \<noteq> []" "CHR '':'' \<notin> set st" "CHR '','' \<notin> set st" "\<forall>c \<in> set st. plain c"
    using assms(1) by (auto simp: storage_id_def)
  have colon: "plain CHR '':''" by (simp add: plain_def space1_def)
  have "\<forall>c \<in> set vol. plain c" using assms(2) by (simp add: volume_text_def)
  moreover from this st(4) colon have "\<forall>c \<in> set ?first. plain c" by auto
  ultimately have first: "TrimSpace ?first = ?first" and vol: "TrimSpace vol = vol"
    by (simp_all only: TrimSpace_all_plain)
  have "CHR '','' \<notin> set ?first" using st assms(2) by (auto simp: volume_text_def)
  then have split: "Split (join CHR '','' (?first # fs)) CHR '','' = ?first # fs"
    using assms(3) by (intro Split_join) auto
  have none: "?first \<noteq> ''none''"
  proof
    assume "?first = ''none''"
    then have "CHR '':'' \<in> set ''none''" by (metis in_set_conv_decomp)
    then show False by simp
  qed
  have cut: "Cut ?first CHR '':'' = (st, vol, True)" using st(2) by (rule Cut_append)
  have "?first \<noteq> []" by simp
  with none st(1) show ?thesis
    unfolding parseCreateDisk_def split list.sel first Let_def cut prod.case vol
    by (simp only: simp_thms if_False list.sel create_disk.update_convs)
qed

lemma show_nat_volume: "volume_text (show_nat n)"
  using show_nat_plain [of n] by (simp add: volume_text_def)

lemma plain_fields: "list_all plain_option fs \<Longrightarrow> \<forall>f \<in> set fs. CHR '','' \<notin> set f"
  by (auto simp: list_all_iff plain_option_def)

lemma parseCreateDisk_param:
  assumes "storage_id st" and "0 < n" and "n < 9223372036854775808" and "list_all plain_option opts"
  shows "parseCreateDisk (new_disk_param st n opts) =
    \<lparr>cd_storage = st, cd_bytes = word_of_int (int n) * 2 ^ 30, cd_cdrom = False\<rparr>"
proof -
  have "0 <s (word_of_int (int n) :: go_int)"
    using assms(2,3) sint_of_int_in_range [of "int n"] by (simp add: word_sless_alt)
  moreover have "TrimSpace (show_nat n) = show_nat n" using show_nat_plain [of n] by (simp add: TrimSpace_all_plain)
  ultimately show ?thesis
    using parseCreateDisk_fields [OF assms(1) show_nat_volume [of n] plain_fields [OF assms(4)]] Atoi_show_nat [OF assms(3)] assms(4)
    by (simp add: new_disk_param_def fold_create_option)
qed

section \<open>What a create is charged\<close>

text \<open>
  The disk parameters a create call knows: a new volume of so many GiB; a volume with its size
  written out in bytes; an existing volume that is attached, without a size; a CD-ROM image; none.
\<close>

datatype disk_request =
    Fresh string nat "string list"
  | Sized string string "string list" go_int
  | Attached string string "string list"
  | Cdrom string string "string list"
  | NoDisk

fun request_text :: "disk_request \<Rightarrow> string" where
  "request_text (Fresh st n opts) = new_disk_param st n opts"
| "request_text (Sized st vol opts n) = join CHR '','' ((st @ CHR '':'' # vol) # opts @ [''size='' @ FormatInt n])"
| "request_text (Attached st vol opts) = join CHR '','' ((st @ CHR '':'' # vol) # opts)"
| "request_text (Cdrom st vol opts) = join CHR '','' ((st @ CHR '':'' # vol) # opts @ [''media=cdrom''])"
| "request_text NoDisk = ''none''"

fun request_ok :: "disk_request \<Rightarrow> bool" where
  "request_ok (Fresh st n opts) = (storage_id st \<and> 0 < n \<and> n < 9223372036854775808 \<and> list_all plain_option opts)"
| "request_ok (Sized st vol opts n) = (storage_id st \<and> volume_text vol \<and> list_all plain_option opts \<and> n \<noteq> 0)"
| "request_ok (Attached st vol opts) =
     (storage_id st \<and> volume_text vol \<and> list_all plain_option opts \<and> Atoi vol = None)"
| "request_ok (Cdrom st vol opts) = (storage_id st \<and> volume_text vol \<and> list_all plain_option opts)"
| "request_ok NoDisk = True"

text \<open>The bytes a request adds on a storage: none for what exists already.\<close>

fun request_bytes :: "string \<Rightarrow> disk_request \<Rightarrow> go_int" where
  "request_bytes st (Fresh s n opts) = (if s = st then word_of_int (int n) * 2 ^ 30 else 0)"
| "request_bytes st (Sized s vol opts n) = (if s = st then n else 0)"
| "request_bytes st (Attached s vol opts) = 0"
| "request_bytes st (Cdrom s vol opts) = 0"
| "request_bytes st NoDisk = 0"

definition create_params :: "params \<Rightarrow> (string \<times> disk_request) list \<Rightarrow> params" where
  "create_params base ds = base @ map (\<lambda>(k, x). (k, request_text x)) ds"

lemma create_option_size: "create_option (''size='' @ FormatInt n) d = d\<lparr>cd_bytes := n\<rparr>"
proof -
  have p: "\<forall>c \<in> set ''size=''. plain c" by (simp add: plain_def space1_def)
  have "\<forall>c \<in> set (''size='' @ FormatInt n). plain c"
    unfolding set_append using p plain_FormatInt [of n] by blast
  then have "TrimSpace (''size='' @ FormatInt n) = ''size='' @ FormatInt n" by (rule TrimSpace_all_plain)
  then show ?thesis
    unfolding create_option_def Let_def by (simp only: CutPrefix_append option.case ParseSize_of_int) simp
qed

lemmas create_option_sized = create_option_size [simplified]

lemma create_option_cdrom: "create_option ''media=cdrom'' d = d\<lparr>cd_cdrom := True\<rparr>"
proof -
  have "TrimSpace ''media=cdrom'' = ''media=cdrom''" "CutPrefix ''media=cdrom'' ''size='' = None" by code_simp+
  then show ?thesis by (simp add: create_option_def)
qed

lemma request_fields:
  "CHR '','' \<notin> set (''size='' @ FormatInt n)" "CHR '','' \<notin> set ''media=cdrom''"
  using FormatInt_no_comma [of n] by auto

lemma new_disk_request:
  assumes "IsDiskKey k" and "request_ok x"
  shows "bytes_on st (new_disk None (k, request_text x)) = request_bytes st x"
proof (cases x)
  case (Fresh s n opts)
  then show ?thesis
    using assms parseCreateDisk_param [of s n opts] by (simp add: bytes_on_def storage_id_def)
next
  case (Sized s vol opts n)
  then have "\<forall>f \<in> set (opts @ [''size='' @ FormatInt n]). CHR '','' \<notin> set f"
    using assms(2) plain_fields [of opts] request_fields(1) [of n] by auto
  from parseCreateDisk_fields [OF _ _ this, of s vol]
  have "parseCreateDisk (request_text x) = \<lparr>cd_storage = s, cd_bytes = n, cd_cdrom = False\<rparr>"
    using Sized assms(2) by (simp add: fold_create_option create_option_sized)
  then show ?thesis using Sized assms by (simp add: bytes_on_def storage_id_def)
next
  case (Attached s vol opts)
  then have "parseCreateDisk (request_text x) = \<lparr>cd_storage = s, cd_bytes = 0, cd_cdrom = False\<rparr>"
    using assms(2) parseCreateDisk_fields [of s vol opts] plain_fields [of opts] by (simp add: fold_create_option)
  then show ?thesis using Attached assms by (simp add: bytes_on_def storage_id_def)
next
  case (Cdrom s vol opts)
  then have "\<forall>f \<in> set (opts @ [''media=cdrom'']). CHR '','' \<notin> set f"
    using assms(2) plain_fields [of opts] request_fields(2) by auto
  from parseCreateDisk_fields [OF _ _ this, of s vol]
  have "cd_cdrom (parseCreateDisk (request_text x))"
    using Cdrom assms(2) by (simp add: fold_create_option create_option_cdrom)
  then show ?thesis using Cdrom by (simp add: bytes_on_def Let_def)
next
  case NoDisk
  have "cd_storage (parseCreateDisk ''none'') = []" by code_simp
  then show ?thesis using NoDisk by (simp add: bytes_on_def Let_def)
qed

lemma new_disks_requests:
  assumes "list_all (\<lambda>(k, x). IsDiskKey k \<and> request_ok x) ds"
  shows "bytes_on st (new_disks None (map (\<lambda>(k, x). (k, request_text x)) ds)) = (\<Sum>(k, x) \<leftarrow> ds. request_bytes st x)"
  using assms
proof (induction ds)
  case Nil
  then show ?case by (simp add: new_disks_def bytes_on_def)
next
  case (Cons e ds)
  obtain k x where e: "e = (k, x)" by fastforce
  with Cons.prems have "IsDiskKey k" "request_ok x" by simp_all
  from new_disk_request [OF this, of st] Cons show ?case
    by (simp add: e new_disks_def bytes_on_append del: new_disk.simps)
qed

lemma new_disks_none: "list_all (\<lambda>(k, _). \<not> IsDiskKey k) base \<Longrightarrow> new_disks None (base @ p) = new_disks None p"
  by (induction base) (auto simp: new_disks_def Let_def)

lemma create_params_get:
  assumes "list_all (\<lambda>(k, x). IsDiskKey k \<and> request_ok x) ds" and "\<not> IsDiskKey k"
  shows "str_at (create_params base ds) k = str_at base k"
proof -
  have "map_get (map (\<lambda>(k, x). (k, request_text x)) ds) k = None"
    using assms by (induction ds) auto
  then have "map_get (create_params base ds) k = map_get base k"
    unfolding create_params_def by (induction base) auto
  then show ?thesis by (simp add: str_at_def)
qed

lemma resource_keys_no_disk: "\<not> IsDiskKey ''cores''" "\<not> IsDiskKey ''sockets''" "\<not> IsDiskKey ''memory''"
  by code_simp+

text \<open>
  C10. What a create is charged: the cores and the memory the accounting reads from a config with the
  same parameters, one instance, and on every storage the GiB of the new volumes and the written-out
  sizes asked of it, modulo 2^64. CD-ROM images and existing volumes that are attached without a
  size are free.
\<close>

theorem CreateDelta_charge:
  assumes "list_all (\<lambda>(k, _). \<not> IsDiskKey k) base" and "list_all (\<lambda>(k, x). IsDiskKey k \<and> request_ok x) ds"
  shows "d_Cores (CreateDelta kind (create_params base ds)) = rs_Cores (GuestResources kind base) \<and>
    d_MemoryMiB (CreateDelta kind (create_params base ds)) = rs_MemoryMiB (GuestResources kind base) \<and>
    d_Instances (CreateDelta kind (create_params base ds)) = 1 \<and>
    int_at (d_DiskBytes (CreateDelta kind (create_params base ds))) st = (\<Sum>(k, x) \<leftarrow> ds. request_bytes st x)"
proof -
  have "bytes_on st (new_disks None (create_params base ds)) = (\<Sum>(k, x) \<leftarrow> ds. request_bytes st x)"
    using new_disks_none [OF assms(1)] new_disks_requests [OF assms(2)] by (simp add: create_params_def)
  moreover have "guest_cores kind (create_params base ds) = guest_cores kind base"
      "guest_memory (create_params base ds) = guest_memory base"
    using create_params_get [OF assms(2)]
    by (simp_all add: guest_cores_def guest_memory_def resource_keys_no_disk)
  ultimately show ?thesis by (simp add: CreateDelta_parts GuestResources_parts)
qed

theorem CreateDelta_charge_witness:
  "int_at (d_DiskBytes (CreateDelta ''qemu'' (create_params [(''cores'', ''4'')]
      [(''scsi0'', Fresh ''tank'' 32 [''ssd=1'']), (''scsi1'', Attached ''tank'' ''vm-9-disk-0'' []),
       (''ide2'', Cdrom ''local'' ''iso/x.iso'' [])]))) ''tank'' = 32 * 2 ^ 30"
proof -
  let ?ds = "[(''scsi0'', Fresh ''tank'' 32 [''ssd=1'']), (''scsi1'', Attached ''tank'' ''vm-9-disk-0'' []),
       (''ide2'', Cdrom ''local'' ''iso/x.iso'' [])]"
  have base: "list_all (\<lambda>(k, _). \<not> IsDiskKey k) [(''cores'', ''4'')]" by code_simp
  have ds: "list_all (\<lambda>(k, x). IsDiskKey k \<and> request_ok x) ?ds" by code_simp
  show ?thesis using CreateDelta_charge [OF base ds, of "''qemu''" "''tank''"] by simp
qed

text \<open>The attached volume is in the usage of the pool from then on, with the size PVE writes into the config.\<close>

lemma attached_volume_is_free:
  "int_at (d_DiskBytes (CreateDelta ''qemu'' [(''scsi1'', ''tank:vm-9-disk-0'')])) ''tank'' = 0"
  "int_at (u_DiskBytes (ConfigUsage ''qemu'' [(''scsi1'', ''tank:vm-9-disk-0,size=100G'')])) ''tank'' = 100 * 2 ^ 30"
  by code_simp+

section \<open>Clones, rollbacks, resizes and moves\<close>

lemma usageToDelta_disks:
  assumes "map_wf (u_DiskBytes u)"
  shows "map_get (d_DiskBytes (usageToDelta u)) st = map_get (u_DiskBytes u) st"
  using puts_get [OF assms, of "[]" st] by (simp add: usageToDelta_def has_key_def)

lemma fold_total: "fold (\<lambda>(_, b) total. total + b) ps (t :: go_int) = t + sum_list (map snd ps)"
  by (induction ps arbitrary: t) (auto simp: ac_simps)

lemma fold_put_fresh:
  "map_wf (m @ ps) \<Longrightarrow> fold (\<lambda>(k, v). map_put k v) ps m = m @ ps"
proof (induction ps arbitrary: m)
  case (Cons p ps)
  obtain k v where p: "p = (k, v)" by fastforce
  have "\<not> has_key m k" using Cons.prems by (auto simp: p map_wf_def has_key_fst)
  then have "map_put k v m = m @ [(k, v)]" by (induction m) auto
  with Cons.IH [of "m @ [(k, v)]"] Cons.prems show ?case by (simp add: p)
qed simp

lemma usageToDelta_disks_eq: "map_wf (u_DiskBytes u) \<Longrightarrow> d_DiskBytes (usageToDelta u) = u_DiskBytes u"
  using fold_put_fresh [of "[]" "u_DiskBytes u"] by (simp add: usageToDelta_def)

text \<open>
  C29. A clone is charged the cores and the memory of its source, one instance and all the bytes
  of its disks: on their own storages, or, when a target storage is named, all of them there
  and none elsewhere.
\<close>

theorem CloneDelta_total:
  assumes "map_wf (u_DiskBytes src)"
  shows "d_Cores (CloneDelta src p) = u_Cores src \<and> d_MemoryMiB (CloneDelta src p) = u_MemoryMiB src \<and>
    d_Instances (CloneDelta src p) = 1 \<and>
    int_at (d_DiskBytes (CloneDelta src p)) st =
      (if str_at p ''storage'' = [] then int_at (u_DiskBytes src) st
       else if st = str_at p ''storage'' then (\<Sum>(_, b) \<leftarrow> u_DiskBytes src. b) else 0)"
proof -
  have "sum_list (map snd (u_DiskBytes src)) = (\<Sum>(_, b) \<leftarrow> u_DiskBytes src. b)"
    by (rule arg_cong [of _ _ sum_list]) (auto simp: case_prod_beta)
  then show ?thesis
    using usageToDelta_disks_eq [OF assms]
    by (simp add: CloneDelta_def Let_def fold_total int_at_def) (simp add: usageToDelta_def)
qed

theorem CloneDelta_total_witness:
  "int_at (d_DiskBytes (CloneDelta \<lparr>u_Cores = 2, u_MemoryMiB = 1024, u_Instances = 1,
      u_DiskBytes = [(''tank'', 5), (''fast'', 7)]\<rparr> [(''storage'', ''fast'')])) ''fast'' = 12"
  using CloneDelta_total [of "\<lparr>u_Cores = 2, u_MemoryMiB = 1024, u_Instances = 1,
      u_DiskBytes = [(''tank'', 5), (''fast'', 7)]\<rparr>" "[(''storage'', ''fast'')]" "''fast''"]
  by (simp add: map_wf_def str_at_def)

text \<open>The positive part of a difference, without wrap-around.\<close>

definition excess :: "go_int \<Rightarrow> go_int \<Rightarrow> int" where
  "excess a b = max 0 (sint a - sint b)"

lemma sint_excess:
  assumes "0 \<le> sint b"
  shows "sint (if b <s a then a - b else 0) = excess a b"
proof -
  have "sint (a - b) = sint a - sint b" if "b <s a"
    using that assms sint_bounds64 [of a] by (intro sint_diff_in_range) (auto simp: word_sless_alt)
  then show ?thesis by (auto simp: excess_def word_sless_alt)
qed

lemma Increase_disks_get:
  "map_wf tgt \<Longrightarrow>
    map_get (fold (\<lambda>(st, tb) out. if f st <s tb then map_put st (tb - f st) out else out) tgt m) k =
      (case map_get tgt k of
         Some tb \<Rightarrow> if f k <s tb then Some (tb - f k) else map_get m k
       | None \<Rightarrow> map_get m k)"
  by (induction tgt arbitrary: m) (auto simp: gm.get_put has_key_def split: option.splits)

lemma Increase_disks_at:
  assumes "map_wf (u_DiskBytes t)"
  shows "int_at (d_DiskBytes (IncreaseDelta t c)) st =
    (if has_key (u_DiskBytes t) st \<and> int_at (u_DiskBytes c) st <s int_at (u_DiskBytes t) st
     then int_at (u_DiskBytes t) st - int_at (u_DiskBytes c) st else 0)"
  unfolding IncreaseDelta_def
  by (simp add: int_at_def [of "fold _ _ _"] Increase_disks_get [OF assms] has_key_def split: option.split)
    (simp add: int_at_def)

definition nonneg_usage :: "usage \<Rightarrow> bool" where
  "nonneg_usage u =
     (0 \<le> sint (u_Cores u) \<and> 0 \<le> sint (u_MemoryMiB u) \<and> map_wf (u_DiskBytes u) \<and>
      (\<forall>(st, b) \<in> set (u_DiskBytes u). 0 \<le> sint b))"

lemma nonneg_usage_at: "nonneg_usage u \<Longrightarrow> 0 \<le> sint (int_at (u_DiskBytes u) st)"
proof -
  assume u: "nonneg_usage u"
  show ?thesis
  proof (cases "map_get (u_DiskBytes u) st")
    case (Some b)
    then have "(st, b) \<in> set (u_DiskBytes u)" using u by (simp add: nonneg_usage_def flip: map_get_mem)
    then show ?thesis using u Some by (auto simp: nonneg_usage_def int_at_def)
  qed (simp add: int_at_def)
qed

text \<open>
  C30. A rollback is charged, dimension by dimension, exactly what the snapshot has more than the
  guest now, and never a negative amount.
\<close>

theorem IncreaseDelta_excess:
  assumes "nonneg_usage target" and "nonneg_usage current"
  shows "sint (d_Cores (IncreaseDelta target current)) = excess (u_Cores target) (u_Cores current) \<and>
    sint (d_MemoryMiB (IncreaseDelta target current)) = excess (u_MemoryMiB target) (u_MemoryMiB current) \<and>
    d_Instances (IncreaseDelta target current) = 0 \<and>
    sint (int_at (d_DiskBytes (IncreaseDelta target current)) st) =
      excess (int_at (u_DiskBytes target) st) (int_at (u_DiskBytes current) st)"
proof -
  have "int_at (u_DiskBytes target) st = 0" if "\<not> has_key (u_DiskBytes target) st"
    using that by (simp add: int_at_def has_key_def)
  then have "sint (int_at (d_DiskBytes (IncreaseDelta target current)) st) =
      sint (if int_at (u_DiskBytes current) st <s int_at (u_DiskBytes target) st
        then int_at (u_DiskBytes target) st - int_at (u_DiskBytes current) st else 0)"
    using assms(1) nonneg_usage_at [OF assms(2), of st]
    by (auto simp: Increase_disks_at nonneg_usage_def word_sless_alt)
  then show ?thesis
    using assms nonneg_usage_at [OF assms(2), of st]
    by (simp add: sint_excess nonneg_usage_def) (simp add: IncreaseDelta_def sint_excess)
qed

theorem IncreaseDelta_excess_witness:
  "sint (d_Cores (IncreaseDelta \<lparr>u_Cores = 8, u_MemoryMiB = 1024, u_Instances = 1, u_DiskBytes = [(''tank'', 5)]\<rparr>
      \<lparr>u_Cores = 2, u_MemoryMiB = 2048, u_Instances = 1, u_DiskBytes = []\<rparr>)) = 6"
  using IncreaseDelta_excess [of "\<lparr>u_Cores = 8, u_MemoryMiB = 1024, u_Instances = 1, u_DiskBytes = [(''tank'', 5)]\<rparr>"
      "\<lparr>u_Cores = 2, u_MemoryMiB = 2048, u_Instances = 1, u_DiskBytes = []\<rparr>"]
  by (simp add: nonneg_usage_def excess_def)

text \<open>The size a resize asks for, given the current one; \<open>+N\<close> is relative.\<close>

definition resize_to :: "string \<Rightarrow> go_int \<Rightarrow> go_int option" where
  "resize_to sz c =
     (case CutPrefix sz ''+'' of
        Some rest \<Rightarrow> map_option (\<lambda>n. c + n) (ParseSize rest)
      | None \<Rightarrow> ParseSize sz)"

lemma resize_to_nonempty: "resize_to sz c = Some s \<Longrightarrow> sz \<noteq> []"
  by (auto simp: resize_to_def ParseSize_def)

lemma int_at_single: "int_at [(k, v)] k' = (if k' = k then v else 0)"
  by (simp add: int_at_def)

text \<open>
  C31. A resize of a disk with a known size is charged, on the storage of the disk only, the
  difference between the size asked for and the current one; asking for less than the current
  size in absolute terms is charged nothing.
\<close>

theorem ResizeDelta_growth:
  assumes "str_at p ''disk'' \<noteq> []" and "ds = ParseDisk (str_at cur (str_at p ''disk''))"
    and "ds_storage ds \<noteq> []" and "ds_hasSize ds" and "resize_to (str_at p ''size'') (ds_size ds) = Some s"
  shows "int_at (d_DiskBytes (ResizeDelta p cur)) st =
      (if st = ds_storage ds \<and> (HasPrefix (str_at p ''size'') ''+'' \<or> ds_size ds <s s)
       then s - ds_size ds else 0) \<and>
    d_Cores (ResizeDelta p cur) = 0 \<and> d_MemoryMiB (ResizeDelta p cur) = 0 \<and> d_Instances (ResizeDelta p cur) = 0"
proof -
  have "str_at p ''size'' \<noteq> []" using resize_to_nonempty [OF assms(5)] .
  then show ?thesis
    using assms
    by (auto simp: ResizeDelta_def resize_to_def newDelta_def int_at_single HasPrefix_def Let_def
        split: option.splits)
qed

theorem ResizeDelta_growth_witness:
  "int_at (d_DiskBytes (ResizeDelta [(''disk'', ''scsi0''), (''size'', FormatInt 500)]
      [(''scsi0'', ''tank:vm-1-disk-0,size='' @ FormatInt 200)])) ''tank'' = 300"
proof -
  let ?p = "[(''disk'', ''scsi0''), (''size'', FormatInt 500)]"
  let ?cur = "[(''scsi0'', ''tank:vm-1-disk-0,size='' @ FormatInt 200)]"
  have d: "ParseDisk (str_at ?cur (str_at ?p ''disk'')) =
      \<lparr>ds_storage = ''tank'', ds_size = 200, ds_hasSize = True, ds_cdrom = False, ds_volid = ''tank:vm-1-disk-0''\<rparr>"
    using ParseDisk_of_line [of "''tank''" "''vm-1-disk-0''" 200] by (simp add: str_at_def plain_def space1_def)
  have p: "CutPrefix (FormatInt 500) ''+'' = None" by code_simp
  have r: "resize_to (str_at ?p ''size'') (ds_size (ParseDisk (str_at ?cur (str_at ?p ''disk'')))) = Some 500"
    by (simp add: resize_to_def str_at_def p ParseSize_of_int)
  show ?thesis
    using ResizeDelta_growth [OF _ refl _ _ r, of "''tank''"]
    by (simp only: d disk_spec.simps) (simp add: str_at_def)
qed

text \<open>
  Moving a disk is charged its size on the target storage and nothing else; a move within
  one storage is charged nothing.
\<close>

theorem MoveDelta_charge:
  assumes "key = (if str_at p ''disk'' = [] then str_at p ''volume'' else str_at p ''disk'')"
    and "key \<noteq> []" and "str_at p ''storage'' \<noteq> []" and "ds = ParseDisk (str_at cur key)" and "ds_hasSize ds"
  shows "int_at (d_DiskBytes (MoveDelta kind p cur)) st =
      (if st = str_at p ''storage'' \<and> st \<noteq> ds_storage ds then ds_size ds else 0) \<and>
    d_Cores (MoveDelta kind p cur) = 0 \<and> d_MemoryMiB (MoveDelta kind p cur) = 0 \<and>
    d_Instances (MoveDelta kind p cur) = 0"
proof (cases "ds_storage ds = str_at p ''storage''")
  case True
  have "MoveDelta kind p cur = newDelta"
    unfolding MoveDelta_def Let_def using assms True by (simp split: if_splits)
  with True show ?thesis by (simp add: newDelta_def)
next
  case False
  have "MoveDelta kind p cur = newDelta\<lparr>d_DiskBytes := map_put (str_at p ''storage'') (ds_size ds) []\<rparr>"
    unfolding MoveDelta_def Let_def using assms False by (simp split: if_splits)
  with False show ?thesis by (simp add: newDelta_def int_at_single)
qed

theorem MoveDelta_charge_witness:
  "int_at (d_DiskBytes (MoveDelta ''qemu'' [(''disk'', ''scsi0''), (''storage'', ''fast'')]
      [(''scsi0'', ''tank:vm-1-disk-0,size='' @ FormatInt 200)])) ''fast'' = 200"
proof -
  let ?p = "[(''disk'', ''scsi0''), (''storage'', ''fast'')]"
  let ?cur = "[(''scsi0'', ''tank:vm-1-disk-0,size='' @ FormatInt 200)]"
  have d: "ParseDisk (str_at ?cur ''scsi0'') =
      \<lparr>ds_storage = ''tank'', ds_size = 200, ds_hasSize = True, ds_cdrom = False, ds_volid = ''tank:vm-1-disk-0''\<rparr>"
    using ParseDisk_of_line [of "''tank''" "''vm-1-disk-0''" 200] by (simp add: str_at_def plain_def space1_def)
  have k: "''scsi0'' = (if str_at ?p ''disk'' = [] then str_at ?p ''volume'' else str_at ?p ''disk'')"
    by (simp add: str_at_def)
  show ?thesis
    using MoveDelta_charge [OF k _ _ refl, of ?cur "''qemu''" "''fast''"] by (simp only: d disk_spec.simps) (simp add: str_at_def)
qed

section \<open>Order\<close>

definition same_delta :: "delta \<Rightarrow> delta \<Rightarrow> bool" where
  "same_delta d e =
     (d_Cores d = d_Cores e \<and> d_MemoryMiB d = d_MemoryMiB e \<and> d_Instances d = d_Instances e \<and>
      (\<forall>st. map_get (d_DiskBytes d) st = map_get (d_DiskBytes e) st))"

lemma map_get_at: "map_get m st = (if has_key m st then Some (int_at m st) else None)"
  by (auto simp: has_key_def int_at_def)

lemma addDiskParams_perm:
  assumes "mset p = mset q" and "\<And>k. (case cur of Some c \<Rightarrow> has_key c k | None \<Rightarrow> False) =
    (case cur' of Some c \<Rightarrow> has_key c k | None \<Rightarrow> False)"
  shows "map_get (addDiskParams [] p cur) st = map_get (addDiskParams [] q cur') st"
proof -
  have "new_disk cur = new_disk cur'" using assms(2) by (auto simp: fun_eq_iff Let_def)
  then have ms: "mset (new_disks cur p) = mset (new_disks cur' q)"
    unfolding new_disks_def by (simp add: mset_concat_map [OF assms(1)])
  then have "has_key (addDiskParams [] p cur) st = has_key (addDiskParams [] q cur') st"
    using mset_eq_setD [OF ms] by (simp add: has_key_def addDiskParams_fold gc.dom_add_all)
  moreover have "int_at (addDiskParams [] p cur) st = int_at (addDiskParams [] q cur') st"
    using bytes_on_perm [OF ms, of st] by (simp add: addDiskParams_at)
  ultimately show ?thesis by (simp add: map_get_at)
qed

lemma has_key_perm: "mset m = mset m' \<Longrightarrow> has_key m k = has_key m' k"
  by (auto simp: has_key_fst dest: mset_eq_setD)

lemma merge_str_at_perm:
  assumes "map_wf p" and "map_wf cur" and "mset p = mset q" and "mset cur = mset cur'"
  shows "str_at (merge cur p) k = str_at (merge cur' q) k"
  using assms(1,2) map_wf_perm [OF assms(3)] map_wf_perm [OF assms(4)]
  by (simp add: merge_str_at has_key_perm [OF assms(3)] str_at_perm [OF _ assms(3)] str_at_perm [OF _ assms(4)])

text \<open>
  C32. Go visits the entries of a map in an unspecified order; the deltas of a create and of a
  config edit do not depend on it.
\<close>

theorem delta_order_free:
  assumes "map_wf p" and "map_wf cur" and "mset p = mset q" and "mset cur = mset cur'"
  shows "same_delta (CreateDelta kind p) (CreateDelta kind q) \<and>
    same_delta (ConfigDelta kind p cur) (ConfigDelta kind q cur')"
proof -
  have sp: "str_at p k = str_at q k" and sc: "str_at cur k = str_at cur' k" for k
    using str_at_perm [OF assms(1,3)] str_at_perm [OF assms(2,4)] by simp_all
  have sm: "str_at (merge cur p) k = str_at (merge cur' q) k" for k
    by (rule merge_str_at_perm [OF assms])
  have "same_delta (CreateDelta kind p) (CreateDelta kind q)"
    using addDiskParams_perm [OF assms(3), of None None] by (simp add: same_delta_def CreateDelta_def sp)
  moreover have "same_delta (ConfigDelta kind p cur) (ConfigDelta kind q cur')"
    using addDiskParams_perm [OF assms(3), of "Some cur" "Some cur'"]
    by (simp add: same_delta_def ConfigDelta_def hasAny_def totalCores_def sp sc sm
        has_key_perm [OF assms(3)] has_key_perm [OF assms(4)])
  ultimately show ?thesis by simp
qed

theorem delta_order_free_witness:
  "same_delta (ConfigDelta ''qemu'' [(''cores'', ''4''), (''memory'', ''512'')] [])
    (ConfigDelta ''qemu'' [(''memory'', ''512''), (''cores'', ''4'')] [])"
  using delta_order_free [of "[(''cores'', ''4''), (''memory'', ''512'')]" "[]"
      "[(''memory'', ''512''), (''cores'', ''4'')]" "[]" "''qemu''"] by (simp add: add_mset_commute)

lemma positive_iff:
  assumes "map_wf (d_DiskBytes d)"
  shows "positive d \<longleftrightarrow> 0 <s d_Cores d \<or> 0 <s d_MemoryMiB d \<or> 0 <s d_Instances d \<or>
    (\<exists>st b. map_get (d_DiskBytes d) st = Some b \<and> 0 <s b)"
  by (auto simp: positive_def list_ex_iff map_get_mem [OF assms])

text \<open>
  A disk parameter for a key the guest already has is not charged, though it allocates a new
  volume and leaves the old one behind.
\<close>

lemma replaced_disk_is_free:
  "ConfigDelta ''qemu'' [(''scsi0'', ''tank:500'')] [(''scsi0'', ''tank:vm-1-disk-0,size=1G'')] = newDelta"
  by (simp add: ConfigDelta_def newDelta_def hasAny_def addDiskParams_def)

text \<open>A disk whose line has no size is moved for nothing, and an absolute resize of it is free.\<close>

lemma unsized_disk_is_free:
  "MoveDelta ''qemu'' [(''disk'', ''unused0''), (''storage'', ''fast'')] [(''unused0'', ''tank:vm-1-disk-0'')] = newDelta"
  "ResizeDelta [(''disk'', ''unused0''), (''size'', ''900G'')] [(''unused0'', ''tank:vm-1-disk-0'')] = newDelta"
proof -
  have "ParseDisk ''tank:vm-1-disk-0'' = \<lparr>ds_storage = ''tank'', ds_size = 0, ds_hasSize = False,
      ds_cdrom = False, ds_volid = ''tank:vm-1-disk-0''\<rparr>" by code_simp
  then show "MoveDelta ''qemu'' [(''disk'', ''unused0''), (''storage'', ''fast'')]
      [(''unused0'', ''tank:vm-1-disk-0'')] = newDelta"
    "ResizeDelta [(''disk'', ''unused0''), (''size'', ''900G'')] [(''unused0'', ''tank:vm-1-disk-0'')] = newDelta"
    by (simp_all add: MoveDelta_def ResizeDelta_def str_at_def Let_def split: option.split)
qed

end
