(* ===== verification/Quota.thy ===== *)
theory Quota imports Jsonout begin

text \<open>
  \<open>internal/quota/quota.go\<close>: the quota file and the store that reloads it. The YAML decoder is a
  parameter, a function from the bytes of the file to a config or an error text. What the file
  system shows is an argument of every operation that looks at it.
\<close>

section \<open>Data\<close>

record node_override =
  o_Cores :: "go_int option"
  o_MemoryMiB :: "go_int option"
  o_Instances :: "go_int option"
  o_DiskGiB :: "disks option"

record user_quota =
  q_Pool :: string
  q_Cores :: go_int
  q_MemoryMiB :: go_int
  q_Instances :: go_int
  q_DiskGiB :: disks
  q_Nodes :: "(string, node_override) gomap"

text \<open>A user's record is a pointer: \<open>None\<close> is \<open>nil\<close>.\<close>

record config =
  cf_Version :: go_int
  cf_Defaults :: "(string, json) gomap"
  cf_Admins :: "string list"
  cf_Users :: "(string, user_quota option) gomap"

section \<open>Validation\<close>

datatype quota_error =
    YamlError string
  | UnsupportedVersion go_int
  | EmptyRecord string
  | MissingPool string
  | InvalidPool string string
  | PoolClaimed string string string
  | NegativeLimit string
  | NegativeDisk string string

text \<open>The regular expression \<open>^[A-Za-z0-9._-]+$\<close>.\<close>

definition pool_char :: "char \<Rightarrow> bool" where
  "pool_char c =
     (let n = (of_char c :: nat) in
      65 \<le> n \<and> n \<le> 90 \<or> 97 \<le> n \<and> n \<le> 122 \<or> 48 \<le> n \<and> n \<le> 57
      \<or> c = CHR ''.'' \<or> c = CHR ''_'' \<or> c = CHR ''-'')"

definition poolIDRe :: "string \<Rightarrow> bool" where
  "poolIDRe s = (s \<noteq> [] \<and> list_all pool_char s)"

fun negative_disk :: "string \<Rightarrow> disks \<Rightarrow> quota_error option" where
  "negative_disk user [] = None"
| "negative_disk user ((st, g) # ds) =
     (if g <s 0 then Some (NegativeDisk user st) else negative_disk user ds)"

fun validate_users :: "(string \<times> user_quota option) list \<Rightarrow> params \<Rightarrow> quota_error option" where
  "validate_users [] pools = None"
| "validate_users ((user, None) # us) pools = Some (EmptyRecord user)"
| "validate_users ((user, Some q) # us) pools =
     (if q_Pool q = [] then Some (MissingPool user)
      else if \<not> poolIDRe (q_Pool q) then Some (InvalidPool user (q_Pool q))
      else case map_get pools (q_Pool q) of
        Some other \<Rightarrow> Some (PoolClaimed (q_Pool q) other user)
      | None \<Rightarrow>
          if q_Cores q <s 0 \<or> q_MemoryMiB q <s 0 \<or> q_Instances q <s 0 then Some (NegativeLimit user)
          else case negative_disk user (q_DiskGiB q) of
            Some e \<Rightarrow> Some e
          | None \<Rightarrow> validate_users us (map_put (q_Pool q) user pools))"

definition Validate :: "config \<Rightarrow> quota_error option" where
  "Validate c =
     (if cf_Version c \<noteq> 0 then Some (UnsupportedVersion (cf_Version c))
      else validate_users (cf_Users c) [])"

type_synonym yaml = "string \<Rightarrow> string + config"

definition Parse :: "yaml \<Rightarrow> string \<Rightarrow> quota_error + config" where
  "Parse unmarshal data =
     (case unmarshal data of
        Inl err \<Rightarrow> Inl (YamlError err)
      | Inr c \<Rightarrow> (case Validate c of Some err \<Rightarrow> Inl err | None \<Rightarrow> Inr c))"

section \<open>The store\<close>

text \<open>Times are nanoseconds; \<open>zero_time\<close> is Go's zero value.\<close>

type_synonym time = int

definition zero_time :: time where
  "zero_time = - 62135596800000000000"

text \<open>One look at the file: what \<open>os.Stat\<close> and then \<open>os.ReadFile\<close> give.\<close>

record file_view =
  f_stat :: "time option"
  f_data :: "string option"

datatype read_error = StatFailed | ReadFailed | Rejected quota_error

record store =
  s_cfg :: config
  s_mtime :: time

definition read :: "yaml \<Rightarrow> file_view \<Rightarrow> (read_error \<times> time) + (config \<times> time)" where
  "read unmarshal f =
     (case f_stat f of
        None \<Rightarrow> Inl (StatFailed, zero_time)
      | Some mt \<Rightarrow>
          (case f_data f of
             None \<Rightarrow> Inl (ReadFailed, zero_time)
           | Some data \<Rightarrow>
               (case Parse unmarshal data of
                  Inl err \<Rightarrow> Inl (Rejected err, mt)
                | Inr cfg \<Rightarrow> Inr (cfg, mt))))"

definition Open :: "yaml \<Rightarrow> file_view \<Rightarrow> read_error + store" where
  "Open unmarshal f =
     (case read unmarshal f of
        Inl (err, _) \<Rightarrow> Inl err
      | Inr (cfg, mt) \<Rightarrow> Inr \<lparr>s_cfg = cfg, s_mtime = mt\<rparr>)"

text \<open>The pointer and the flag.\<close>

definition Get :: "store \<Rightarrow> string \<Rightarrow> user_quota option \<times> bool" where
  "Get s user =
     (case map_get (cf_Users (s_cfg s)) user of None \<Rightarrow> (None, False) | Some q \<Rightarrow> (q, True))"

definition Users :: "store \<Rightarrow> string list" where
  "Users s = map fst (cf_Users (s_cfg s))"

definition Admins :: "store \<Rightarrow> string list" where
  "Admins s = cf_Admins (s_cfg s)"

datatype watch_log = WatchStat | WatchRejected read_error | WatchReloaded nat

text \<open>
  One tick of \<open>Watch\<close>: the first \<open>Stat\<close> and, when the time has changed, a read of the file, which
  looks at the file again.
\<close>

definition watch_tick :: "yaml \<Rightarrow> time option \<Rightarrow> file_view \<Rightarrow> store \<Rightarrow> store \<times> watch_log list" where
  "watch_tick unmarshal stat f s =
     (case stat of
        None \<Rightarrow> (s, [WatchStat])
      | Some t \<Rightarrow>
          if t = s_mtime s then (s, [])
          else (case read unmarshal f of
            Inl (err, mt) \<Rightarrow> (s\<lparr>s_mtime := mt\<rparr>, [WatchRejected err])
          | Inr (cfg, mt) \<Rightarrow>
              (\<lparr>s_cfg = cfg, s_mtime = mt\<rparr>, [WatchReloaded (length (cf_Users cfg))])))"

section \<open>What validation guarantees\<close>

definition valid_quota :: "user_quota \<Rightarrow> bool" where
  "valid_quota q =
     (poolIDRe (q_Pool q) \<and> 0 \<le> sint (q_Cores q) \<and> 0 \<le> sint (q_MemoryMiB q) \<and>
      0 \<le> sint (q_Instances q) \<and> list_all (\<lambda>(_, g). 0 \<le> sint g) (q_DiskGiB q))"

definition valid_users :: "(string \<times> user_quota option) list \<Rightarrow> bool" where
  "valid_users us =
     (list_all (\<lambda>(_, q). case q of None \<Rightarrow> False | Some r \<Rightarrow> valid_quota r) us \<and>
      distinct (map (\<lambda>(_, q). map_option q_Pool q) us))"

definition valid_config :: "config \<Rightarrow> bool" where
  "valid_config c = (cf_Version c = 0 \<and> valid_users (cf_Users c))"

lemma negative_disk_None: "negative_disk u ds = None \<longleftrightarrow> list_all (\<lambda>(_, g). 0 \<le> sint g) ds"
  by (induction u ds rule: negative_disk.induct) (auto simp: word_sless_alt)

lemma validate_users_None:
  "validate_users us pools = None \<longleftrightarrow>
    valid_users us \<and> (\<forall>(_, q) \<in> set us. \<forall>r. q = Some r \<longrightarrow> \<not> has_key pools (q_Pool r))"
proof (induction us pools rule: validate_users.induct)
  case (3 user q us pools)
  let ?ok = "valid_quota q \<and> \<not> has_key pools (q_Pool q)"
  have step: "validate_users ((user, Some q) # us) pools = None \<longleftrightarrow>
      ?ok \<and> validate_users us (map_put (q_Pool q) user pools) = None"
    using negative_disk_None [of user "q_DiskGiB q"]
    by (auto simp: valid_quota_def poolIDRe_def has_key_def word_sless_alt not_less split: option.split)
  have put: "has_key (map_put (q_Pool q) user pools) k \<longleftrightarrow> k = q_Pool q \<or> has_key pools k" for k
    by (simp add: has_key_def gm.get_put)
  show ?case
  proof (cases ?ok)
    case True
    then have "validate_users us (map_put (q_Pool q) user pools) = None \<longleftrightarrow>
        valid_users us \<and> (\<forall>(_, p) \<in> set us. \<forall>r. p = Some r \<longrightarrow> \<not> has_key (map_put (q_Pool q) user pools) (q_Pool r))"
      using 3 negative_disk_None [of user "q_DiskGiB q"]
      by (auto simp: valid_quota_def poolIDRe_def has_key_def word_sless_alt not_less)
    moreover have "Some (q_Pool q) \<notin> set (map (\<lambda>(_, p). map_option q_Pool p) us) \<longleftrightarrow>
        (\<forall>(_, p) \<in> set us. \<forall>r. p = Some r \<longrightarrow> q_Pool r \<noteq> q_Pool q)"
      by (auto simp: image_iff eq_commute [of "Some _" "map_option _ _"] map_option_eq_Some) blast
    ultimately show ?thesis
      using True unfolding step put valid_users_def list.map distinct.simps prod.case option.map
      by (simp add: case_prod_beta) blast
  next
    case False
    then show ?thesis unfolding step by (auto simp: valid_users_def)
  qed
qed (auto simp: valid_users_def)

lemma Validate_None: "Validate c = None \<longleftrightarrow> valid_config c"
  by (simp add: Validate_def valid_config_def validate_users_None)

text \<open>
  C33. A quota file is accepted exactly when its version is 0, every user has a record with a
  well-formed pool id and no negative limit, and no two users share a pool.
\<close>

theorem Validate_exact:
  "Validate c = None \<longleftrightarrow> cf_Version c = 0 \<and> valid_users (cf_Users c)"
  by (simp add: Validate_None valid_config_def)

section \<open>The store as a source of quotas\<close>

text \<open>
  What the admission relies on: every quota it looks up is valid, no two users share a pool, and
  both hold after every reload.
\<close>

locale quota_source =
  fixes lookup :: "'s \<Rightarrow> string \<Rightarrow> user_quota option"
    and reload :: "'i \<Rightarrow> 's \<Rightarrow> 's"
    and inv :: "'s \<Rightarrow> bool"
  assumes lookup_valid: "inv s \<Longrightarrow> lookup s u = Some q \<Longrightarrow> valid_quota q"
    and lookup_injective:
      "inv s \<Longrightarrow> lookup s u = Some q \<Longrightarrow> lookup s v = Some r \<Longrightarrow> q_Pool q = q_Pool r \<Longrightarrow> u = v"
    and reload_inv: "inv s \<Longrightarrow> inv (reload i s)"
begin

lemma reloads_inv: "inv s \<Longrightarrow> inv (fold reload xs s)"
  by (induction xs arbitrary: s) (auto simp: reload_inv)

lemma reloads_valid: "inv s \<Longrightarrow> lookup (fold reload xs s) u = Some q \<Longrightarrow> valid_quota q"
  using reloads_inv lookup_valid by blast

lemma reloads_pool_owner:
  assumes "inv s" and "lookup (fold reload xs s) u = Some q" and "lookup (fold reload xs s) v = Some r"
  shows "q_Pool q = q_Pool r \<longleftrightarrow> u = v"
  using assms reloads_inv lookup_injective by fastforce

end

lemma valid_users_get:
  assumes "valid_users us" and "map_get us u = Some q"
  obtains r where "q = Some r" "valid_quota r" "(u, Some r) \<in> set us"
proof -
  have "(u, q) \<in> set us" using assms(2) by (simp add: map_get_def map_of_SomeD)
  then show thesis using assms(1) that by (cases q) (auto simp: valid_users_def list_all_iff)
qed

lemma valid_users_injective:
  assumes "valid_users us" and "(u, Some q) \<in> set us" and "(v, Some r) \<in> set us" and "q_Pool q = q_Pool r"
  shows "(u, Some q) = (v, Some r)"
proof -
  have "inj_on (\<lambda>(_, q). map_option q_Pool q) (set us)"
    using assms(1) by (simp add: valid_users_def distinct_map)
  from inj_onD [OF this, of "(u, Some q)" "(v, Some r)"] assms(2-4) show ?thesis by simp
qed

lemma read_valid: "read unmarshal f = Inr (cfg, mt) \<Longrightarrow> valid_config cfg"
  by (auto simp: read_def Parse_def Validate_None split: option.splits sum.splits)

lemma Open_valid: "Open unmarshal f = Inr s \<Longrightarrow> valid_config (s_cfg s)"
  using read_valid [of unmarshal f] by (auto simp: Open_def split: sum.splits)

definition tick :: "yaml \<Rightarrow> time option \<times> file_view \<Rightarrow> store \<Rightarrow> store" where
  "tick unmarshal i s = fst (watch_tick unmarshal (fst i) (snd i) s)"

lemma tick_valid: "valid_config (s_cfg s) \<Longrightarrow> valid_config (s_cfg (tick unmarshal i s))"
  using read_valid [of unmarshal "snd i"] by (auto simp: tick_def watch_tick_def split: option.split sum.split)

interpretation qs: quota_source "\<lambda>s u. fst (Get s u)" "tick unmarshal" "\<lambda>s. valid_config (s_cfg s)"
  for unmarshal
proof (unfold_locales, goal_cases)
  case (1 s u q)
  then show ?case
    by (auto simp: Get_def valid_config_def split: option.splits elim: valid_users_get)
next
  case (2 s u q v r)
  then have us: "valid_users (cf_Users (s_cfg s))" by (simp add: valid_config_def)
  have "(u, Some q) \<in> set (cf_Users (s_cfg s))" "(v, Some r) \<in> set (cf_Users (s_cfg s))"
    using 2 us by (auto simp: Get_def split: option.splits elim: valid_users_get)
  from valid_users_injective [OF us this 2(4)] show ?case by simp
next
  case (3 s i)
  then show ?case by (rule tick_valid)
qed

lemma Get_valid_pointer: "valid_config (s_cfg s) \<Longrightarrow> Get s u \<noteq> (None, True)"
  by (auto simp: Get_def valid_config_def split: option.splits elim: valid_users_get)

text \<open>
  C17. However often the file is reloaded, whatever it holds in between: a user that is found has
  a valid quota and a record that is not \<open>nil\<close>, and two users have the same pool only if they
  are the same user.
\<close>

theorem store_keeps_pools_apart:
  assumes "Open unmarshal f = Inr s0" and "s = fold (tick unmarshal) ticks s0"
    and "Get s u = (Some q, True)" and "Get s v = (Some r, True)"
  shows "valid_quota q \<and> (q_Pool q = q_Pool r \<longleftrightarrow> u = v) \<and> Get s w \<noteq> (None, True)"
proof -
  have inv0: "valid_config (s_cfg s0)" by (rule Open_valid [OF assms(1)])
  have u: "fst (Get (fold (tick unmarshal) ticks s0) u) = Some q"
    and v: "fst (Get (fold (tick unmarshal) ticks s0) v) = Some r"
    using assms(2-4) by simp_all
  have "valid_quota q" by (rule qs.reloads_valid [OF inv0 u])
  moreover have "q_Pool q = q_Pool r \<longleftrightarrow> u = v" by (rule qs.reloads_pool_owner [OF inv0 u v])
  moreover have "Get s w \<noteq> (None, True)"
    unfolding assms(2) by (rule Get_valid_pointer [OF qs.reloads_inv [OF inv0]])
  ultimately show ?thesis by blast
qed

text \<open>A config for the examples, and a decoder that knows one text.\<close>

definition demo_quota :: user_quota where
  "demo_quota = \<lparr>q_Pool = ''uq-x'', q_Cores = 16, q_MemoryMiB = 32768, q_Instances = 4,
     q_DiskGiB = [(''tank'', 500)], q_Nodes = []\<rparr>"

definition demo_config :: config where
  "demo_config = \<lparr>cf_Version = 0, cf_Defaults = [], cf_Admins = [''root@pam''],
     cf_Users = [(''x@pve'', Some demo_quota)]\<rparr>"

definition demo_yaml :: yaml where
  "demo_yaml data = (if data = ''good'' then Inr demo_config else Inl ''syntax'')"

lemma demo_valid: "Validate demo_config = None"
  by code_simp

lemma demo_Open:
  "Open demo_yaml \<lparr>f_stat = Some 1, f_data = Some ''good''\<rparr> = Inr \<lparr>s_cfg = demo_config, s_mtime = 1\<rparr>"
  by (simp add: Open_def read_def Parse_def demo_yaml_def demo_valid)

lemma demo_Get: "Get \<lparr>s_cfg = demo_config, s_mtime = t\<rparr> ''x@pve'' = (Some demo_quota, True)"
  by (simp add: Get_def demo_config_def)

theorem store_keeps_pools_apart_witness:
  "valid_quota demo_quota \<and> (q_Pool demo_quota = q_Pool demo_quota \<longleftrightarrow> ''x@pve'' = ''x@pve'') \<and>
    Get \<lparr>s_cfg = demo_config, s_mtime = 2\<rparr> ''x@pve'' \<noteq> (None, True)"
proof -
  let ?bad = "(Some 2, \<lparr>f_stat = Some 2, f_data = Some ''bad''\<rparr>)"
  have "\<lparr>s_cfg = demo_config, s_mtime = 2\<rparr> =
      fold (tick demo_yaml) [?bad] \<lparr>s_cfg = demo_config, s_mtime = 1\<rparr>"
    by (simp add: tick_def watch_tick_def read_def Parse_def demo_yaml_def)
  from store_keeps_pools_apart [OF demo_Open this demo_Get demo_Get] show ?thesis .
qed

text \<open>
  A file that does not change is looked at once: the first tick takes it over when it is
  valid and keeps the previous config when it is broken or unreadable as YAML, the next one
  changes nothing and logs nothing.
\<close>

theorem watch_settles:
  assumes "f_stat f = Some t" and "f_data f = Some data" and "t \<noteq> s_mtime s"
    and "watch_tick unmarshal (Some t) f s = (s', logs)"
  shows "s_cfg s' = (case Parse unmarshal data of Inr cfg \<Rightarrow> cfg | Inl _ \<Rightarrow> s_cfg s) \<and>
    logs = [case Parse unmarshal data of Inr cfg \<Rightarrow> WatchReloaded (length (cf_Users cfg)) | Inl err \<Rightarrow> WatchRejected (Rejected err)] \<and>
    watch_tick unmarshal (Some t) f s' = (s', [])"
  using assms by (auto simp: watch_tick_def read_def split: sum.splits)

theorem watch_settles_witness:
  "watch_tick demo_yaml (Some 2) \<lparr>f_stat = Some 2, f_data = Some ''bad''\<rparr>
      \<lparr>s_cfg = demo_config, s_mtime = 2\<rparr> = (\<lparr>s_cfg = demo_config, s_mtime = 2\<rparr>, [])"
  using watch_settles [of "\<lparr>f_stat = Some 2, f_data = Some ''bad''\<rparr>" 2 "''bad''" "\<lparr>s_cfg = demo_config, s_mtime = 1\<rparr>"
      demo_yaml "\<lparr>s_cfg = demo_config, s_mtime = 2\<rparr>" "[WatchRejected (Rejected (YamlError ''syntax''))]"]
  by (simp add: watch_tick_def read_def Parse_def demo_yaml_def)

end
