(* ===== verification/Classify.thy ===== *)
theory Classify imports Gostrings begin

text \<open>
  \<open>internal/classify/classify.go\<close>: the classification of a request by its method and
  path. The model keeps the code's order of tests and its helper functions; the record
  \<open>result\<close> is the struct \<open>Result\<close>. \<open>quota_endpoint\<close> and \<open>passthrough_endpoint\<close> state
  the two endpoint tables row by row, and the lemmas show that the code decides exactly
  these tables.
\<close>

section \<open>Data\<close>

text \<open>\<open>ActionZero\<close> is the zero value of the string type, which no result carries.\<close>

datatype action =
    ActionZero
  | ActionRead
  | ActionPassthrough
  | ActionGuestCreate
  | ActionGuestConfig
  | ActionResize
  | ActionClone
  | ActionMoveDisk
  | ActionRollback
  | ActionStorageAlloc
  | ActionStorageUpload
  | ActionPoolMembership
  | ActionUnknownWrite

record result =
  res_Method :: string
  res_Path :: string
  res_Envelope :: string
  res_Action :: action
  res_GuestKind :: string
  res_Node :: string
  res_VMID :: string
  res_Storage :: string
  res_Snapshot :: string
  res_QuotaRelevant :: bool
  res_Phase :: string

section \<open>Paths\<close>

definition splitEnvelope :: "string \<Rightarrow> string \<times> string" where
  "splitEnvelope p0 =
     (let p = TrimPrefix p0 ''/'' in
      if p = ''api2/json'' \<or> HasPrefix p ''api2/json/''
      then (''json'', TrimPrefix (TrimPrefix p ''api2/json'') ''/'')
      else if p = ''api2/extjs'' \<or> HasPrefix p ''api2/extjs/''
      then (''extjs'', TrimPrefix (TrimPrefix p ''api2/extjs'') ''/'')
      else (''other'', p))"

definition splitSegs :: "string \<Rightarrow> string list" where
  "splitSegs p0 =
     (let p = Trim p0 CHR ''/'' in if p = [] then [] else Split p CHR ''/'')"

section \<open>The pass-through table\<close>

definition guestPassthrough :: "string \<Rightarrow> string list \<Rightarrow> bool" where
  "guestPassthrough method segs =
     (if length segs = 4 then method = ''DELETE''
      else if 5 \<le> length segs then
        segs ! 4 \<in> {''status'', ''vncproxy'', ''termproxy'', ''spiceproxy'', ''vncwebsocket'',
          ''agent'', ''firewall'', ''sendkey'', ''cloudinit'', ''unlink'', ''snapshot'',
          ''rrd'', ''rrddata'', ''feature'', ''spiceshell''}
      else False)"

definition nodePassthrough :: "string \<Rightarrow> string list \<Rightarrow> bool" where
  "nodePassthrough method segs =
     (if length segs < 3 then False
      else if segs ! 2 = ''vzdump'' then True
      else if segs ! 2 = ''qemu'' \<or> segs ! 2 = ''lxc'' then guestPassthrough method segs
      else if segs ! 2 = ''storage'' then
        method = ''DELETE'' \<and> 5 \<le> length segs \<and> segs ! 4 = ''content''
      else False)"

definition knownPassthrough :: "string \<Rightarrow> string list \<Rightarrow> bool" where
  "knownPassthrough method segs =
     (if segs = [] then False
      else if segs ! 0 = ''access'' then
        2 \<le> length segs \<and>
          (segs ! 1 = ''ticket'' \<or> segs ! 1 = ''password'' \<or> segs ! 1 = ''tfa'' \<or> segs ! 1 = ''openid'')
      else if segs ! 0 = ''nodes'' then nodePassthrough method segs
      else False)"

definition passOrUnknown :: "string \<Rightarrow> string list \<Rightarrow> result \<Rightarrow> result" where
  "passOrUnknown method segs res =
     (if knownPassthrough method segs then res\<lparr>res_Action := ActionPassthrough\<rparr>
      else res\<lparr>res_Action := ActionUnknownWrite\<rparr>)"

section \<open>The interception table\<close>

definition quota :: "result \<Rightarrow> action \<Rightarrow> string \<Rightarrow> result" where
  "quota res a phase =
     res\<lparr>res_Action := a, res_QuotaRelevant := True, res_Phase := phase\<rparr>"

definition classifyGuest :: "string \<Rightarrow> string list \<Rightarrow> result \<Rightarrow> result" where
  "classifyGuest method segs res0 =
     (if length segs = 3 then
        (if method = ''POST''
         then res0\<lparr>res_Action := ActionGuestCreate, res_QuotaRelevant := True, res_Phase := ''P4''\<rparr>
         else passOrUnknown method segs res0)
      else
       (let res = res0\<lparr>res_VMID := segs ! 3\<rparr> in
        if 5 \<le> length segs \<and> segs ! 4 = ''config'' \<and> (method = ''PUT'' \<or> method = ''POST'')
        then quota res ActionGuestConfig ''P4''
        else if 5 \<le> length segs \<and> segs ! 4 = ''resize'' \<and> method = ''PUT''
        then quota res ActionResize ''P4''
        else if 5 \<le> length segs \<and> segs ! 4 = ''clone'' \<and> method = ''POST''
        then quota res ActionClone ''P5''
        else if 5 \<le> length segs \<and> (segs ! 4 = ''move_disk'' \<or> segs ! 4 = ''move_volume'')
          \<and> method = ''POST''
        then quota res ActionMoveDisk ''P5''
        else if 5 \<le> length segs \<and> segs ! 4 = ''snapshot''
          \<and> method = ''POST'' \<and> 7 \<le> length segs \<and> segs ! 6 = ''rollback''
        then quota (res\<lparr>res_Snapshot := segs ! 5\<rparr>) ActionRollback ''P5''
        else passOrUnknown method segs res))"

definition classifyStorage :: "string \<Rightarrow> string list \<Rightarrow> result \<Rightarrow> result" where
  "classifyStorage method segs res0 =
     (let res = (if 4 \<le> length segs then res0\<lparr>res_Storage := segs ! 3\<rparr> else res0) in
      if method = ''POST'' \<and> 5 \<le> length segs \<and> segs ! 4 = ''content''
      then quota res ActionStorageAlloc ''P5''
      else if method = ''POST'' \<and> 5 \<le> length segs \<and>
        (segs ! 4 = ''upload'' \<or> segs ! 4 = ''download-url'')
      then quota res ActionStorageUpload ''P5''
      else passOrUnknown method segs res)"

definition new_result :: "string \<Rightarrow> string \<Rightarrow> string \<Rightarrow> result" where
  "new_result method path env =
     \<lparr>res_Method = method, res_Path = path, res_Envelope = env, res_Action = ActionZero,
      res_GuestKind = [], res_Node = [], res_VMID = [], res_Storage = [], res_Snapshot = [],
      res_QuotaRelevant = False, res_Phase = []\<rparr>"

text \<open>What \<open>Classify\<close> does once the path is split; the method is the upper-case one.\<close>

definition classify_segs :: "string \<Rightarrow> string list \<Rightarrow> result \<Rightarrow> result" where
  "classify_segs method segs res =
     (if method = ''GET'' \<or> method = ''HEAD'' \<or> method = ''OPTIONS''
      then res\<lparr>res_Action := ActionRead\<rparr>
      else if 1 \<le> length segs \<and> segs ! 0 = ''pools'' then
        (if method = ''PUT'' \<or> method = ''POST''
         then res\<lparr>res_Action := ActionPoolMembership, res_QuotaRelevant := True, res_Phase := ''P4''\<rparr>
         else passOrUnknown method segs res)
      else if 3 \<le> length segs \<and> segs ! 0 = ''nodes'' then
        (let res1 = res\<lparr>res_Node := segs ! 1\<rparr> in
         if segs ! 2 = ''qemu'' \<or> segs ! 2 = ''lxc''
         then classifyGuest method segs (res1\<lparr>res_GuestKind := segs ! 2\<rparr>)
         else if segs ! 2 = ''storage'' then classifyStorage method segs res1
         else passOrUnknown method segs res1)
      else passOrUnknown method segs res)"

definition Classify :: "string \<Rightarrow> string \<Rightarrow> result" where
  "Classify method rawPath =
     (let (env, rest) = splitEnvelope rawPath
      in classify_segs (ToUpper method) (splitSegs rest) (new_result method rawPath env))"

section \<open>The tables as specifications\<close>

text \<open>
  The rows of the interception table, as the comments of the action constants give them
  (a \<open>+\<close> is one segment; a row also takes longer paths where the code does).
\<close>

inductive quota_endpoint :: "string \<Rightarrow> string list \<Rightarrow> action \<Rightarrow> bool" where
  row_create: "kind \<in> {''qemu'', ''lxc''} \<Longrightarrow>
    quota_endpoint ''POST'' [''nodes'', node, kind] ActionGuestCreate"
| row_config: "kind \<in> {''qemu'', ''lxc''} \<Longrightarrow> m \<in> {''PUT'', ''POST''} \<Longrightarrow>
    quota_endpoint m (''nodes'' # node # kind # vmid # ''config'' # rs) ActionGuestConfig"
| row_resize: "kind \<in> {''qemu'', ''lxc''} \<Longrightarrow>
    quota_endpoint ''PUT'' (''nodes'' # node # kind # vmid # ''resize'' # rs) ActionResize"
| row_clone: "kind \<in> {''qemu'', ''lxc''} \<Longrightarrow>
    quota_endpoint ''POST'' (''nodes'' # node # kind # vmid # ''clone'' # rs) ActionClone"
| row_move: "kind \<in> {''qemu'', ''lxc''} \<Longrightarrow> opn \<in> {''move_disk'', ''move_volume''} \<Longrightarrow>
    quota_endpoint ''POST'' (''nodes'' # node # kind # vmid # opn # rs) ActionMoveDisk"
| row_rollback: "kind \<in> {''qemu'', ''lxc''} \<Longrightarrow>
    quota_endpoint ''POST'' (''nodes'' # node # kind # vmid # ''snapshot'' # snap # ''rollback'' # rs)
      ActionRollback"
| row_alloc:
    "quota_endpoint ''POST'' (''nodes'' # node # ''storage'' # st # ''content'' # rs) ActionStorageAlloc"
| row_upload: "opn \<in> {''upload'', ''download-url''} \<Longrightarrow>
    quota_endpoint ''POST'' (''nodes'' # node # ''storage'' # st # opn # rs) ActionStorageUpload"
| row_pool: "m \<in> {''PUT'', ''POST''} \<Longrightarrow>
    quota_endpoint m (''pools'' # rs) ActionPoolMembership"

definition read_method :: "string \<Rightarrow> bool" where
  "read_method m = (m = ''GET'' \<or> m = ''HEAD'' \<or> m = ''OPTIONS'')"

text \<open>
  The rows of the pass-through table; the rollback of a snapshot is taken out of the last
  row by the interception table, which comes first.
\<close>

inductive passthrough_endpoint :: "string \<Rightarrow> string list \<Rightarrow> bool" where
  row_access: "x \<in> {''ticket'', ''password'', ''tfa'', ''openid''} \<Longrightarrow>
    passthrough_endpoint m (''access'' # x # rs)"
| row_vzdump: "passthrough_endpoint m (''nodes'' # node # ''vzdump'' # rs)"
| row_destroy: "kind \<in> {''qemu'', ''lxc''} \<Longrightarrow>
    passthrough_endpoint ''DELETE'' [''nodes'', node, kind, vmid]"
| row_free: "passthrough_endpoint ''DELETE'' (''nodes'' # node # ''storage'' # st # ''content'' # rs)"
| row_guest_op: "kind \<in> {''qemu'', ''lxc''} \<Longrightarrow>
    opn \<in> {''status'', ''vncproxy'', ''termproxy'', ''spiceproxy'', ''vncwebsocket'',
      ''agent'', ''firewall'', ''sendkey'', ''cloudinit'', ''unlink'', ''snapshot'',
      ''rrd'', ''rrddata'', ''feature'', ''spiceshell''} \<Longrightarrow>
    passthrough_endpoint m (''nodes'' # node # kind # vmid # opn # rs)"

section \<open>The code decides the tables\<close>

lemma passOrUnknown_fields [simp]:
  "res_QuotaRelevant (passOrUnknown m segs res) = res_QuotaRelevant res"
  "res_Phase (passOrUnknown m segs res) = res_Phase res"
  "res_Envelope (passOrUnknown m segs res) = res_Envelope res"
  "res_Action (passOrUnknown m segs res) =
    (if knownPassthrough m segs then ActionPassthrough else ActionUnknownWrite)"
  by (auto simp: passOrUnknown_def)

lemma quota_fields [simp]:
  "res_QuotaRelevant (quota res a ph)" "res_Phase (quota res a ph) = ph"
  "res_Action (quota res a ph) = a" "res_Envelope (quota res a ph) = res_Envelope res"
  by (simp_all add: quota_def)

lemma classifyGuest_short:
  "classifyGuest m [a, b, c] res =
    (if m = ''POST'' then quota res ActionGuestCreate ''P4'' else passOrUnknown m [a, b, c] res)"
  by (simp add: classifyGuest_def quota_def)

lemma classifyGuest_vmid:
  "classifyGuest m [a, b, c, v] res = passOrUnknown m [a, b, c, v] (res\<lparr>res_VMID := v\<rparr>)"
  by (simp add: classifyGuest_def)

lemma classifyGuest_op:
  "classifyGuest m (a # b # c # v # opn # rs) res =
    (let res' = res\<lparr>res_VMID := v\<rparr> in
     if opn = ''config'' \<and> (m = ''PUT'' \<or> m = ''POST'') then quota res' ActionGuestConfig ''P4''
     else if opn = ''resize'' \<and> m = ''PUT'' then quota res' ActionResize ''P4''
     else if opn = ''clone'' \<and> m = ''POST'' then quota res' ActionClone ''P5''
     else if (opn = ''move_disk'' \<or> opn = ''move_volume'') \<and> m = ''POST'' then quota res' ActionMoveDisk ''P5''
     else if opn = ''snapshot'' \<and> m = ''POST'' \<and> 2 \<le> length rs \<and> rs ! 1 = ''rollback''
     then quota (res'\<lparr>res_Snapshot := rs ! 0\<rparr>) ActionRollback ''P5''
     else passOrUnknown m (a # b # c # v # opn # rs) res')"
proof -
  let ?segs = "a # b # c # v # opn # rs"
  have shape: "(length ?segs = 3) = False" "(5 \<le> length ?segs) = True"
    "(7 \<le> length ?segs) = (2 \<le> length rs)"
    "?segs ! 3 = v" "?segs ! 4 = opn" "?segs ! 5 = rs ! 0" "?segs ! 6 = rs ! 1"
    by auto
  show ?thesis by (simp only: classifyGuest_def shape Let_def simp_thms if_False)
qed

lemma rollback_shape: "2 \<le> length rs \<and> rs ! 1 = x \<longleftrightarrow> (\<exists>s u. rs = s # x # u)"
  by (cases rs; cases "tl rs") auto

lemma classifyGuest_quota:
  assumes "\<not> res_QuotaRelevant res" and "kind \<in> {''qemu'', ''lxc''}"
    and "res_QuotaRelevant (classifyGuest m (''nodes'' # node # kind # u) res)"
  shows "quota_endpoint m (''nodes'' # node # kind # u)
    (res_Action (classifyGuest m (''nodes'' # node # kind # u) res))"
proof (cases u)
  case Nil
  with assms show ?thesis
    by (auto simp: classifyGuest_short intro: quota_endpoint.intros split: if_splits)
next
  case u: (Cons v w)
  show ?thesis
  proof (cases w)
    case Nil
    with assms u show ?thesis by (simp add: classifyGuest_vmid)
  next
    case (Cons opn rs)
    let ?segs = "''nodes'' # node # kind # v # opn # rs"
    have q: "res_QuotaRelevant (classifyGuest m ?segs res)" using assms(3) u Cons by simp
    then consider
        (config) "opn = ''config''" "m = ''PUT'' \<or> m = ''POST''"
      | (resize) "opn = ''resize''" "m = ''PUT''"
      | (clone) "opn = ''clone''" "m = ''POST''"
      | (move) "opn = ''move_disk'' \<or> opn = ''move_volume''" "m = ''POST''"
      | (rollback) "opn = ''snapshot''" "m = ''POST''" "2 \<le> length rs \<and> rs ! 1 = ''rollback''"
      using assms(1) unfolding classifyGuest_op Let_def by (simp split: if_split_asm)
    then have "quota_endpoint m ?segs (res_Action (classifyGuest m ?segs res))"
    proof cases
      case config
      then show ?thesis using assms(2) row_config [of kind m node v rs] by (auto simp: classifyGuest_op)
    next
      case resize
      then show ?thesis using assms(2) row_resize [of kind node v rs] by (simp add: classifyGuest_op)
    next
      case clone
      then show ?thesis using assms(2) row_clone [of kind node v rs] by (simp add: classifyGuest_op)
    next
      case move
      then show ?thesis using assms(2) row_move [of kind opn node v rs] by (auto simp: classifyGuest_op)
    next
      case rollback
      then obtain s x where rs: "rs = s # ''rollback'' # x" 
        using rollback(3) unfolding rollback_shape by (elim exE)
      have "classifyGuest m ?segs res = quota (res\<lparr>res_VMID := v, res_Snapshot := s\<rparr>) ActionRollback ''P5''"
        unfolding rs rollback(1,2) classifyGuest_op by (simp add: Let_def)
      with rollback(1,2) rs show ?thesis
        using assms(2) row_rollback [of kind node v s x] by (simp only: quota_fields)
    qed
    with u Cons show ?thesis by simp
  qed
qed

lemma classifyStorage_op:
  "classifyStorage m (a # b # c # st # opn # rs) res =
    (let res' = res\<lparr>res_Storage := st\<rparr> in
     if m = ''POST'' \<and> opn = ''content'' then quota res' ActionStorageAlloc ''P5''
     else if m = ''POST'' \<and> (opn = ''upload'' \<or> opn = ''download-url'')
     then quota res' ActionStorageUpload ''P5''
     else passOrUnknown m (a # b # c # st # opn # rs) res')"
  by (auto simp: classifyStorage_def Let_def)

lemma classifyStorage_quota:
  assumes "\<not> res_QuotaRelevant res"
    and "res_QuotaRelevant (classifyStorage m (''nodes'' # node # ''storage'' # u) res)"
  shows "quota_endpoint m (''nodes'' # node # ''storage'' # u)
    (res_Action (classifyStorage m (''nodes'' # node # ''storage'' # u) res))"
proof -
  have len: "\<not> length u < 2"
    using assms by (auto simp: classifyStorage_def split: if_split_asm)
  then obtain st opn rs where u: "u = st # opn # rs"
    by (cases u; cases "tl u") auto
  then consider "m = ''POST''" "opn = ''content''" | "m = ''POST''" "opn = ''upload'' \<or> opn = ''download-url''"
    using assms unfolding u classifyStorage_op Let_def by (simp split: if_split_asm)
  then show ?thesis
  proof cases
    case 1
    then show ?thesis unfolding u by (simp add: classifyStorage_op row_alloc)
  next
    case 2
    then show ?thesis
      unfolding u using row_upload [of opn node st rs] by (auto simp: classifyStorage_op)
  qed
qed

lemma classify_segs_guest:
  assumes "\<not> read_method m" and "kind \<in> {''qemu'', ''lxc''}"
  shows "classify_segs m (''nodes'' # node # kind # u) res =
    classifyGuest m (''nodes'' # node # kind # u) (res\<lparr>res_Node := node, res_GuestKind := kind\<rparr>)"
  using assms by (auto simp: classify_segs_def read_method_def)

lemma classify_segs_storage:
  assumes "\<not> read_method m"
  shows "classify_segs m (''nodes'' # node # ''storage'' # u) res =
    classifyStorage m (''nodes'' # node # ''storage'' # u) (res\<lparr>res_Node := node\<rparr>)"
  using assms by (simp add: classify_segs_def read_method_def)

lemma write_methods [simp]:
  "\<not> read_method ''POST''" "\<not> read_method ''PUT''" "\<not> read_method ''DELETE''"
  by (simp_all add: read_method_def)

lemma classify_segs_quota:
  assumes "\<not> res_QuotaRelevant res" and "res_QuotaRelevant (classify_segs m segs res)"
  shows "quota_endpoint m segs (res_Action (classify_segs m segs res))"
proof -
  have nread: "\<not> (m = ''GET'' \<or> m = ''HEAD'' \<or> m = ''OPTIONS'')"
    using assms by (auto simp: classify_segs_def)
  obtain s0 t where segs: "segs = s0 # t"
    using assms nread by (cases segs) (auto simp: classify_segs_def)
  show ?thesis
  proof (cases "s0 = ''pools''")
    case True
    then have "m \<in> {''PUT'', ''POST''}"
      using assms nread segs by (simp add: classify_segs_def split: if_split_asm)
    with True segs show ?thesis
      using row_pool [of m t] by (auto simp: classify_segs_def)
  next
    case False
    with assms nread segs have nodes: "s0 = ''nodes''" "2 \<le> length t"
      by (auto simp: classify_segs_def split: if_split_asm)
    then obtain node kind u where t: "t = node # kind # u"
      by (cases t; cases "tl t") auto
    let ?r = "res\<lparr>res_Node := node\<rparr>"
    consider "kind \<in> {''qemu'', ''lxc''}" | "kind = ''storage''"
      using assms nread segs nodes t by (auto simp: classify_segs_def Let_def split: if_split_asm)
    then show ?thesis
    proof cases
      case 1
      then have "classify_segs m segs res = classifyGuest m segs (?r\<lparr>res_GuestKind := kind\<rparr>)"
        using nread segs nodes t by (auto simp: classify_segs_def)
      with assms 1 show ?thesis
        using classifyGuest_quota [of "?r\<lparr>res_GuestKind := kind\<rparr>" kind m node u] segs nodes t by simp
    next
      case 2
      then have "classify_segs m segs res = classifyStorage m segs ?r"
        using nread segs nodes t by (simp add: classify_segs_def)
      with assms 2 show ?thesis
        using classifyStorage_quota [of ?r m node u] segs nodes t by simp
    qed
  qed
qed

lemma quota_endpoint_classified:
  assumes "quota_endpoint m segs a"
  shows "res_QuotaRelevant (classify_segs m segs res) \<and> res_Action (classify_segs m segs res) = a"
  using assms
proof (cases rule: quota_endpoint.cases)
  case (row_create kind node)
  then show ?thesis by (simp add: classify_segs_guest classifyGuest_short)
next
  case (row_config kind node vmid rs)
  then show ?thesis by (elim insertE emptyE) (simp_all add: classify_segs_guest classifyGuest_op)
next
  case (row_resize kind node vmid rs)
  then show ?thesis by (simp add: classify_segs_guest classifyGuest_op)
next
  case (row_clone kind node vmid rs)
  then show ?thesis by (simp add: classify_segs_guest classifyGuest_op)
next
  case (row_move kind opn node vmid rs)
  then show ?thesis by (elim insertE emptyE) (simp_all add: classify_segs_guest classifyGuest_op)
next
  case (row_rollback kind node vmid snap rs)
  then show ?thesis by (simp add: classify_segs_guest classifyGuest_op Let_def)
next
  case (row_alloc node st rs)
  then show ?thesis by (simp add: classify_segs_storage classifyStorage_op)
next
  case (row_upload opn node st rs)
  then show ?thesis by (elim insertE emptyE) (simp_all add: classify_segs_storage classifyStorage_op)
next
  case (row_pool rs)
  then show ?thesis by (elim insertE emptyE) (simp_all add: classify_segs_def)
qed

inductive_simps passthrough_guest_simps:
  "passthrough_endpoint m [''nodes'', node, ''qemu'']"
  "passthrough_endpoint m [''nodes'', node, ''lxc'']"
  "passthrough_endpoint m [''nodes'', node, ''qemu'', v]"
  "passthrough_endpoint m [''nodes'', node, ''lxc'', v]"
  "passthrough_endpoint m (''nodes'' # node # ''qemu'' # v # opn # rs)"
  "passthrough_endpoint m (''nodes'' # node # ''lxc'' # v # opn # rs)"

lemma guestPassthrough_iff:
  assumes "kind \<in> {''qemu'', ''lxc''}"
  shows "guestPassthrough m (''nodes'' # node # kind # u) \<longleftrightarrow>
    passthrough_endpoint m (''nodes'' # node # kind # u)"
proof -
  consider "u = []" | v where "u = [v]" | v opn rs where "u = v # opn # rs"
    by (cases u; cases "tl u") auto
  then show ?thesis
    using assms
    by cases (elim insertE emptyE; simp add: guestPassthrough_def passthrough_guest_simps)+
qed

inductive_simps passthrough_node_simps:
  "passthrough_endpoint m []"
  "passthrough_endpoint m [''access'']"
  "passthrough_endpoint m (''access'' # x # rs)"
  "passthrough_endpoint m [''nodes'']"
  "passthrough_endpoint m [''nodes'', node]"
  "passthrough_endpoint m (''nodes'' # node # ''vzdump'' # rs)"
  "passthrough_endpoint m [''nodes'', node, ''storage'']"
  "passthrough_endpoint m [''nodes'', node, ''storage'', st]"
  "passthrough_endpoint m (''nodes'' # node # ''storage'' # st # opn # rs)"

lemma passthrough_endpoint_heads:
  assumes "passthrough_endpoint m segs"
  shows "hd segs = ''access'' \<or>
    hd segs = ''nodes'' \<and> segs ! 2 \<in> {''vzdump'', ''qemu'', ''lxc'', ''storage''}"
  using assms by (cases rule: passthrough_endpoint.cases) auto

lemma nodePassthrough_iff:
  "nodePassthrough m (''nodes'' # t) \<longleftrightarrow> passthrough_endpoint m (''nodes'' # t)"
proof -
  consider "t = []" | node where "t = [node]" | node kind u where "t = node # kind # u"
    by (cases t; cases "tl t") auto
  then show ?thesis
  proof cases
    case (3 node kind u)
    consider (guest) "kind \<in> {''qemu'', ''lxc''}" | (dump) "kind = ''vzdump''" | (st) "kind = ''storage''"
      | (other) "kind \<notin> {''vzdump'', ''qemu'', ''lxc'', ''storage''}"
      by blast
    then show ?thesis
    proof cases
      case guest
      with 3 guestPassthrough_iff [OF guest, of m node u] show ?thesis
        by (elim insertE emptyE) (simp_all add: nodePassthrough_def)
    next
      case dump
      with 3 show ?thesis by (simp add: nodePassthrough_def passthrough_node_simps)
    next
      case st
      with 3 show ?thesis
        by (cases u; cases "tl u") (auto simp: nodePassthrough_def passthrough_node_simps)
    next
      case other
      then have "\<not> passthrough_endpoint m (''nodes'' # node # kind # u)"
        using passthrough_endpoint_heads [of m "''nodes'' # node # kind # u"] by auto
      moreover have "\<not> nodePassthrough m (''nodes'' # node # kind # u)"
        using other by (simp add: nodePassthrough_def)
      ultimately show ?thesis using 3 by simp
    qed
  qed (simp_all add: nodePassthrough_def passthrough_node_simps)
qed

lemma knownPassthrough_iff: "knownPassthrough m segs \<longleftrightarrow> passthrough_endpoint m segs"
proof (cases segs)
  case Nil
  then show ?thesis by (simp add: knownPassthrough_def passthrough_node_simps)
next
  case (Cons s0 t)
  consider "s0 = ''access''" | "s0 = ''nodes''" | "s0 \<noteq> ''access'' \<and> s0 \<noteq> ''nodes''" by blast
  then show ?thesis
  proof cases
    case 1
    with Cons show ?thesis
      by (cases t) (simp_all add: knownPassthrough_def passthrough_node_simps)
  next
    case 2
    with Cons show ?thesis by (simp add: knownPassthrough_def nodePassthrough_iff)
  next
    case 3
    then have "\<not> passthrough_endpoint m (s0 # t)"
      using passthrough_endpoint_heads [of m "s0 # t"] by auto
    with 3 Cons show ?thesis by (simp add: knownPassthrough_def)
  qed
qed

text \<open>Every write ends in one of the three classes.\<close>

lemma classify_segs_action:
  assumes "\<not> res_QuotaRelevant res"
  shows "res_Action (classify_segs m segs res) =
    (if read_method m then ActionRead
     else if res_QuotaRelevant (classify_segs m segs res) then res_Action (classify_segs m segs res)
     else if passthrough_endpoint m segs then ActionPassthrough else ActionUnknownWrite)"
proof -
  have "res_Action (classifyGuest m segs r) =
      (if passthrough_endpoint m segs then ActionPassthrough else ActionUnknownWrite)"
    if "\<not> res_QuotaRelevant (classifyGuest m segs r)" for r
    using that by (auto simp: classifyGuest_def Let_def knownPassthrough_iff split: if_split_asm)
  moreover have "res_Action (classifyStorage m segs r) =
      (if passthrough_endpoint m segs then ActionPassthrough else ActionUnknownWrite)"
    if "\<not> res_QuotaRelevant (classifyStorage m segs r)" for r
    using that by (auto simp: classifyStorage_def Let_def knownPassthrough_iff split: if_split_asm)
  ultimately show ?thesis
    using assms by (auto simp: classify_segs_def read_method_def Let_def knownPassthrough_iff)
qed

section \<open>Paths built from segments\<close>

definition segments :: "string list \<Rightarrow> bool" where
  "segments segs = (segs \<noteq> [] \<and> (\<forall>s \<in> set segs. s \<noteq> [] \<and> CHR ''/'' \<notin> set s))"

definition api_path :: "string \<Rightarrow> string list \<Rightarrow> string" where
  "api_path env segs = ''/api2/'' @ env @ ''/'' @ join CHR ''/'' segs"

lemma join_ends:
  assumes "segments segs"
  shows "join CHR ''/'' segs \<noteq> [] \<and> hd (join CHR ''/'' segs) \<noteq> CHR ''/'' \<and>
    last (join CHR ''/'' segs) \<noteq> CHR ''/''"
  using assms
proof (induction "CHR ''/''" segs rule: join.induct)
  case 1
  then show ?case by (simp add: segments_def)
next
  case (2 f)
  then show ?case by (auto simp: segments_def) (metis hd_in_set, metis last_in_set)
next
  case (3 f g fs)
  then have "segments (g # fs)" by (simp add: segments_def)
  with 3 show ?case by (auto simp: segments_def) (metis hd_in_set)
qed

lemma Trim_id:
  assumes "s \<noteq> []" and "hd s \<noteq> c" and "last s \<noteq> c"
  shows "Trim s c = s"
proof -
  have "dropWhile (\<lambda>x. x = c) s = s" using assms by (cases s) auto
  moreover have "dropWhile (\<lambda>x. x = c) (rev s) = rev s"
    using assms by (cases s rule: rev_cases) auto
  ultimately show ?thesis by (simp add: Trim_def)
qed

lemma splitSegs_join: "segments segs \<Longrightarrow> splitSegs (join CHR ''/'' segs) = segs"
  using join_ends [of segs] by (simp add: splitSegs_def Trim_id Split_join segments_def)

lemma splitEnvelope_json: "splitEnvelope (''/api2/json/'' @ r) = (''json'', r)"
  by (simp add: splitEnvelope_def TrimPrefix_def)

lemma splitEnvelope_extjs: "splitEnvelope (''/api2/extjs/'' @ r) = (''extjs'', r)"
  by (simp add: splitEnvelope_def TrimPrefix_def)

lemma Classify_api_path:
  assumes "env \<in> {''json'', ''extjs''}" and "segments segs"
  shows "Classify m (api_path env segs) =
    classify_segs (ToUpper m) segs (new_result m (api_path env segs) env)"
  using assms splitEnvelope_json [of "join CHR ''/'' segs"] splitEnvelope_extjs [of "join CHR ''/'' segs"]
  by (auto simp: Classify_def api_path_def splitSegs_join)

text \<open>The path and the envelope of a result are carried along, never looked at.\<close>

definition set_origin :: "string \<Rightarrow> string \<Rightarrow> result \<Rightarrow> result" where
  "set_origin p e res = res\<lparr>res_Path := p, res_Envelope := e\<rparr>"

lemma set_origin_commutes:
  "set_origin p e (quota res a ph) = quota (set_origin p e res) a ph"
  "set_origin p e (passOrUnknown m segs res) = passOrUnknown m segs (set_origin p e res)"
  "set_origin p e (res\<lparr>res_VMID := v\<rparr>) = (set_origin p e res)\<lparr>res_VMID := v\<rparr>"
  "set_origin p e (res\<lparr>res_Node := v\<rparr>) = (set_origin p e res)\<lparr>res_Node := v\<rparr>"
  "set_origin p e (res\<lparr>res_GuestKind := v\<rparr>) = (set_origin p e res)\<lparr>res_GuestKind := v\<rparr>"
  "set_origin p e (res\<lparr>res_Storage := v\<rparr>) = (set_origin p e res)\<lparr>res_Storage := v\<rparr>"
  "set_origin p e (res\<lparr>res_Snapshot := v\<rparr>) = (set_origin p e res)\<lparr>res_Snapshot := v\<rparr>"
  "set_origin p e (res\<lparr>res_Action := a\<rparr>) = (set_origin p e res)\<lparr>res_Action := a\<rparr>"
  "set_origin p e (res\<lparr>res_QuotaRelevant := b\<rparr>) = (set_origin p e res)\<lparr>res_QuotaRelevant := b\<rparr>"
  "set_origin p e (res\<lparr>res_Phase := ph\<rparr>) = (set_origin p e res)\<lparr>res_Phase := ph\<rparr>"
  by (auto simp: set_origin_def quota_def passOrUnknown_def)

lemma classify_segs_origin:
  "set_origin p e (classify_segs m segs res) = classify_segs m segs (set_origin p e res)"
  by (simp only: classify_segs_def classifyGuest_def classifyStorage_def Let_def
      if_distrib [of "set_origin p e"] set_origin_commutes)

lemma passOrUnknown_guest_fields [simp]:
  "res_Node (passOrUnknown m segs res) = res_Node res"
  "res_GuestKind (passOrUnknown m segs res) = res_GuestKind res"
  "res_VMID (passOrUnknown m segs res) = res_VMID res"
  by (auto simp: passOrUnknown_def)

lemma quota_guest_fields [simp]:
  "res_Node (quota res a ph) = res_Node res"
  "res_GuestKind (quota res a ph) = res_GuestKind res"
  "res_VMID (quota res a ph) = res_VMID res"
  by (simp_all add: quota_def)

lemma classifyGuest_fields:
  "res_Node (classifyGuest m segs res) = res_Node res"
  "res_GuestKind (classifyGuest m segs res) = res_GuestKind res"
  "res_Envelope (classifyGuest m segs res) = res_Envelope res"
  "length segs \<noteq> 3 \<Longrightarrow> res_VMID (classifyGuest m segs res) = segs ! 3"
  by (simp_all add: classifyGuest_def Let_def)

lemma new_result_not_quota [simp]: "\<not> res_QuotaRelevant (new_result m p env)"
  by (simp add: new_result_def)

lemma quota_endpoint_action:
  assumes "quota_endpoint m segs a"
  shows "\<not> read_method m" and "a \<notin> {ActionZero, ActionRead, ActionPassthrough, ActionUnknownWrite}"
  using assms by (cases rule: quota_endpoint.cases; auto)+

lemma Classify_action_cases:
  assumes "\<not> res_QuotaRelevant (Classify m p)"
  shows "res_Action (Classify m p) =
    (if read_method (ToUpper m) then ActionRead
     else if passthrough_endpoint (ToUpper m) (splitSegs (snd (splitEnvelope p)))
     then ActionPassthrough else ActionUnknownWrite)"
  using classify_segs_action [of "new_result m p (fst (splitEnvelope p))" "ToUpper m"] assms
  unfolding Classify_def Let_def case_prod_beta by (metis new_result_not_quota)

lemma Classify_quota:
  fixes m p
  defines "segs \<equiv> splitSegs (snd (splitEnvelope p))"
  shows "res_QuotaRelevant (Classify m p) \<and> res_Action (Classify m p) = a \<longleftrightarrow>
    quota_endpoint (ToUpper m) segs a"
  using classify_segs_quota [of "new_result m p (fst (splitEnvelope p))"]
    quota_endpoint_classified
  unfolding segs_def Classify_def Let_def case_prod_beta by auto

section \<open>Properties\<close>

text \<open>
  C9. A request is intercepted with an action exactly when its upper-cased method and its
  path segments match the row of the interception table for that action.
\<close>

theorem classify_intercepts:
  "res_QuotaRelevant (Classify m p) \<and> res_Action (Classify m p) = a \<longleftrightarrow>
    quota_endpoint (ToUpper m) (splitSegs (snd (splitEnvelope p))) a"
  by (rule Classify_quota)

text \<open>
  What is not intercepted is a read, a write of the pass-through table, or an unknown
  write: the write endpoints in neither table are exactly those that the default-deny policy
  sees.
\<close>

theorem classify_partition:
  fixes m p
  defines "segs \<equiv> splitSegs (snd (splitEnvelope p))" and "mm \<equiv> ToUpper m"
  shows "(res_Action (Classify m p) = ActionRead \<longleftrightarrow> read_method mm) \<and>
    (res_Action (Classify m p) = ActionPassthrough \<longleftrightarrow>
      \<not> read_method mm \<and> (\<nexists>a. quota_endpoint mm segs a) \<and> passthrough_endpoint mm segs) \<and>
    (res_Action (Classify m p) = ActionUnknownWrite \<longleftrightarrow>
      \<not> read_method mm \<and> (\<nexists>a. quota_endpoint mm segs a) \<and> \<not> passthrough_endpoint mm segs)"
proof (cases "res_QuotaRelevant (Classify m p)")
  case True
  then have "quota_endpoint mm segs (res_Action (Classify m p))"
    unfolding segs_def mm_def by (simp flip: Classify_quota)
  with quota_endpoint_action [OF this] show ?thesis by auto
next
  case False
  then have "\<nexists>a. quota_endpoint mm segs a"
    unfolding segs_def mm_def by (simp flip: Classify_quota)
  moreover have "res_Action (Classify m p) =
    (if read_method mm then ActionRead
     else if passthrough_endpoint mm segs then ActionPassthrough else ActionUnknownWrite)"
    using Classify_action_cases [OF False] unfolding segs_def mm_def by simp
  ultimately show ?thesis by auto
qed

text \<open>
  The two API envelopes are treated alike: apart from the path and the envelope recorded
  in the result, a request under \<open>/api2/json/\<close> is classified as the same request under
  \<open>/api2/extjs/\<close>.
\<close>

theorem classify_envelope_independent:
  "set_origin x y (Classify m (''/api2/json/'' @ r)) = set_origin x y (Classify m (''/api2/extjs/'' @ r))"
  unfolding Classify_def splitEnvelope_json splitEnvelope_extjs Let_def prod.case classify_segs_origin
  by (simp add: new_result_def set_origin_def)

text \<open>
  For a request on a guest, written with the API prefix, the node, the guest kind and the
  VMID of the result are the segments of the path.
\<close>

theorem classify_guest_request:
  assumes "env \<in> {''json'', ''extjs''}" and "kind \<in> {''qemu'', ''lxc''}"
    and "segments (''nodes'' # node # kind # vmid # rs)" and "\<not> read_method (ToUpper m)"
  shows "res_Node (Classify m (api_path env (''nodes'' # node # kind # vmid # rs))) = node \<and>
    res_GuestKind (Classify m (api_path env (''nodes'' # node # kind # vmid # rs))) = kind \<and>
    res_VMID (Classify m (api_path env (''nodes'' # node # kind # vmid # rs))) = vmid \<and>
    res_Envelope (Classify m (api_path env (''nodes'' # node # kind # vmid # rs))) = env"
proof -
  let ?segs = "''nodes'' # node # kind # vmid # rs"
  have "Classify m (api_path env ?segs) = classifyGuest (ToUpper m) ?segs
      ((new_result m (api_path env ?segs) env)\<lparr>res_Node := node, res_GuestKind := kind\<rparr>)"
    using Classify_api_path [OF assms(1,3), of m] by (simp only: classify_segs_guest [OF assms(4,2)])
  then show ?thesis by (simp add: classifyGuest_fields new_result_def)
qed

theorem classify_guest_request_witness:
  "res_VMID (Classify ''PUT'' (api_path ''json'' [''nodes'', ''n1'', ''qemu'', ''100'', ''config''])) = ''100''"
  using classify_guest_request [of "''json''" "''qemu''" "''n1''" "''100''" "[''config'']" "''PUT''"]
  by (simp add: segments_def read_method_def upper1_def Let_def)

end
