(* ===== verification/Identity.thy ===== *)
theory Identity imports Httpreq begin

text \<open>
  \<open>internal/identity/identity.go\<close>: the acting user of a request, read from the API token
  header or from the PVE cookie; nothing is verified here. A parse function returns an
  option where the code returns a value and a flag.
\<close>

datatype kind = KindNone | KindCookie | KindToken

record identity =
  id_Kind :: kind
  id_User :: string
  id_Realm :: string
  id_Token :: string

definition none_identity :: identity where
  "none_identity = \<lparr>id_Kind = KindNone, id_User = [], id_Realm = [], id_Token = []\<rparr>"

definition realmOf :: "string \<Rightarrow> string option" where
  "realmOf user =
     (case LastIndex user CHR ''@'' of
        None \<Rightarrow> None
      | Some i \<Rightarrow> if i = 0 \<or> i = length user - 1 then None else Some (drop (i + 1) user))"

definition parseToken :: "string \<Rightarrow> identity option" where
  "parseToken h =
     (if \<not> HasPrefix h ''PVEAPIToken'' then None
      else
       (let rest0 = TrimSpace (drop (length ''PVEAPIToken'') h);
            rest = TrimSpace (TrimPrefix rest0 ''='');
            (idPart, _, _) = Cut rest CHR ''='';
            (user0, token0, ok) = Cut idPart CHR ''!''
        in if \<not> ok then None
           else
            (let user = TrimSpace user0; token = TrimSpace token0 in
             case realmOf user of
               None \<Rightarrow> None
             | Some realm \<Rightarrow>
                 if token = [] then None
                 else Some \<lparr>id_Kind = KindToken, id_User = user, id_Realm = realm, id_Token = token\<rparr>)))"

definition parseCookie :: "string \<Rightarrow> identity option" where
  "parseCookie v0 =
     (let v = (case QueryUnescape v0 of Some dec \<Rightarrow> dec | None \<Rightarrow> v0) in
      if \<not> HasPrefix v ''PVE:'' then None
      else
       (let rest = drop (length ''PVE:'') v in
        if HasPrefix rest ''!'' then None
        else
         (let (user, _, ok) = Cut rest CHR '':'' in
          if \<not> ok then None
          else case realmOf user of
            None \<Rightarrow> None
          | Some realm \<Rightarrow>
              Some \<lparr>id_Kind = KindCookie, id_User = user, id_Realm = realm, id_Token = []\<rparr>)))"

definition cookieName :: string where
  "cookieName = ''PVEAuthCookie''"

definition FromRequest :: "request \<Rightarrow> identity" where
  "FromRequest r =
     (let h = Header_Get (rq_Header r) ''Authorization'';
          from_header = (if h \<noteq> [] then parseToken h else None)
      in case from_header of
           Some i \<Rightarrow> i
         | None \<Rightarrow>
             (case Cookie r cookieName of
                None \<Rightarrow> none_identity
              | Some v \<Rightarrow> (case parseCookie v of Some i \<Rightarrow> i | None \<Rightarrow> none_identity)))"

section \<open>Lemmas\<close>

lemma realmOf_Some:
  "realmOf user = Some realm \<longleftrightarrow>
    (\<exists>name. user = name @ CHR ''@'' # realm \<and> name \<noteq> [] \<and> realm \<noteq> [] \<and> CHR ''@'' \<notin> set realm)"
proof
  assume "realmOf user = Some realm"
  then obtain i where i: "LastIndex user CHR ''@'' = Some i" "i \<noteq> 0" "i \<noteq> length user - 1"
      "realm = drop (i + 1) user"
    by (auto simp: realmOf_def split: option.splits if_splits)
  from LastIndex_Some [OF i(1)] obtain a b
    where "user = a @ CHR ''@'' # b" "CHR ''@'' \<notin> set b" "length a = i" by blast
  with i show "\<exists>name. user = name @ CHR ''@'' # realm \<and> name \<noteq> [] \<and> realm \<noteq> [] \<and> CHR ''@'' \<notin> set realm"
    by (intro exI [of _ a]) auto
next
  assume "\<exists>name. user = name @ CHR ''@'' # realm \<and> name \<noteq> [] \<and> realm \<noteq> [] \<and> CHR ''@'' \<notin> set realm"
  then show "realmOf user = Some realm"
    by (auto simp: realmOf_def LastIndex_append)
qed

definition user_id :: "string \<Rightarrow> string \<Rightarrow> bool" where
  "user_id user realm =
     (\<exists>name. user = name @ CHR ''@'' # realm \<and> name \<noteq> [] \<and> realm \<noteq> [] \<and> CHR ''@'' \<notin> set realm)"

lemma realmOf_iff: "realmOf user = Some realm \<longleftrightarrow> user_id user realm"
  by (simp add: realmOf_Some user_id_def)

lemma parseToken_shape:
  "parseToken h = Some i \<Longrightarrow> id_Kind i = KindToken \<and> user_id (id_User i) (id_Realm i) \<and> id_Token i \<noteq> []"
  by (auto simp: parseToken_def realmOf_iff Let_def split: if_splits option.splits prod.splits)

lemma parseCookie_shape:
  "parseCookie v = Some i \<Longrightarrow> id_Kind i = KindCookie \<and> user_id (id_User i) (id_Realm i) \<and> id_Token i = []"
  by (auto simp: parseCookie_def realmOf_iff Let_def split: if_splits option.splits prod.splits)

lemma TrimSpace_tail:
  assumes "plain a" and "plain c"
  shows "\<exists>t'. TrimSpace (a # xs @ c # t) = a # xs @ c # t'"
proof -
  obtain u where "trim_right (rev t @ c # rev (a # xs)) = u @ c # rev (a # xs)"
    using trim_right_keeps [OF assms(2)] by blast
  then have "TrimSpace (a # xs @ c # t) = a # xs @ c # rev u"
    using assms(1) by (simp add: TrimSpace_def trim_left_plain)
  then show ?thesis by blast
qed

lemma plain_equals [simp]: "plain CHR ''=''"
  by (simp add: plain_def space1_def)

lemma user_id_ends:
  assumes "user_id user realm"
  shows "user \<noteq> []" and "realm \<noteq> []" and "CHR ''@'' \<in> set user"
  using assms by (auto simp: user_id_def)

text \<open>
  A token header yields the user, the realm and the token name, whatever the secret is;
  the secret is no part of the identity.
\<close>

theorem parseToken_header:
  assumes "user_id user realm" and "token \<noteq> []"
    and "\<forall>c \<in> set (user @ token). plain c \<and> c \<noteq> CHR ''!'' \<and> c \<noteq> CHR ''=''"
  shows "parseToken (''PVEAPIToken='' @ user @ ''!'' @ token @ ''='' @ secret) =
    Some \<lparr>id_Kind = KindToken, id_User = user, id_Realm = realm, id_Token = token\<rparr>"
proof -
  let ?id = "user @ ''!'' @ token"
  obtain u us where user: "user = u # us" using user_id_ends(1) [OF assms(1)] by (cases user) auto
  have u: "plain u" using assms(3) user by simp
  obtain t' where t1: "TrimSpace (CHR ''='' # ?id @ CHR ''='' # secret) = CHR ''='' # ?id @ CHR ''='' # t'"
    using TrimSpace_tail [of "CHR ''=''" "CHR ''=''" "?id" secret] by auto
  obtain t'' where t2: "TrimSpace (?id @ CHR ''='' # t') = ?id @ CHR ''='' # t''"
    using TrimSpace_tail [of u "CHR ''=''" "us @ ''!'' @ token" t'] u user by auto
  have cut1: "Cut (?id @ CHR ''='' # t'') CHR ''='' = (?id, t'', True)"
    using assms(3) by (intro Cut_append) auto
  have cut2: "Cut ?id CHR ''!'' = (user, token, True)"
    using assms(3) Cut_append [of "CHR ''!''" user token] by auto
  have trims: "TrimSpace user = user" "TrimSpace token = token"
    using assms(3) by (simp_all add: TrimSpace_all_plain)
  show ?thesis
    using assms(1,2) t1 t2 cut1 cut2 trims
    by (simp add: parseToken_def TrimPrefix_def realmOf_iff [THEN iffD2])
qed

theorem parseToken_header_witness:
  "parseToken ''PVEAPIToken=automation@pve!ci=2f9c-secret-uuid'' =
    Some \<lparr>id_Kind = KindToken, id_User = ''automation@pve'', id_Realm = ''pve'', id_Token = ''ci''\<rparr>"
  using parseToken_header [of "''automation@pve''" "''pve''" "''ci''" "''2f9c-secret-uuid''"]
  by (simp add: user_id_def plain_def space1_def exI [of _ "''automation''"])

text \<open>
  A login ticket in the cookie yields its user, read up to the colon, when the cookie
  is the escaped ticket; the time stamp and the signature are no part of the identity.
\<close>

theorem parseCookie_ticket:
  assumes "user_id user realm" and "CHR '':'' \<notin> set user" and "hd user \<noteq> CHR ''!''"
  shows "parseCookie (QueryEscape (''PVE:'' @ user @ '':'' @ rest)) =
    Some \<lparr>id_Kind = KindCookie, id_User = user, id_Realm = realm, id_Token = []\<rparr>"
proof -
  have "\<not> HasPrefix (user @ '':'' @ rest) ''!''"
    using assms(3) user_id_ends(1) [OF assms(1)] by (cases user) auto
  moreover have "Cut (user @ CHR '':'' # rest) CHR '':'' = (user, rest, True)"
    using assms(2) by (rule Cut_append)
  ultimately show ?thesis
    using assms(1) by (simp add: parseCookie_def QueryUnescape_Escape realmOf_iff [THEN iffD2])
qed

theorem parseCookie_ticket_witness:
  "parseCookie (QueryEscape ''PVE:root@pam:6A2CC5E2::abcSIGdef'') =
    Some \<lparr>id_Kind = KindCookie, id_User = ''root@pam'', id_Realm = ''pam'', id_Token = []\<rparr>"
  using parseCookie_ticket [of "''root@pam''" "''pam''" "''6A2CC5E2::abcSIGdef''"]
  by (simp add: user_id_def exI [of _ "''root''"])

text \<open>What the header and what the cookie say, each by itself.\<close>

definition token_of :: "request \<Rightarrow> identity option" where
  "token_of r =
     (let h = Header_Get (rq_Header r) ''Authorization'' in if h = [] then None else parseToken h)"

definition ticket_of :: "request \<Rightarrow> identity option" where
  "ticket_of r = (case Cookie r ''PVEAuthCookie'' of None \<Rightarrow> None | Some v \<Rightarrow> parseCookie v)"

lemma FromRequest_cases:
  "FromRequest r =
    (case token_of r of Some i \<Rightarrow> i | None \<Rightarrow> (case ticket_of r of Some i \<Rightarrow> i | None \<Rightarrow> none_identity))"
  by (simp add: FromRequest_def token_of_def ticket_of_def cookieName_def Let_def split: option.split)

text \<open>
  C28. The identity of a request is the one of its API token when the Authorization header holds a
  well-formed one; else the one of the login ticket in the cookie when that is well-formed; else
  none. It is none or a user id \<open>name@realm\<close> with both parts present, and has a token name exactly
  when the token gave it.
\<close>

theorem FromRequest_identity:
  "(FromRequest r = none_identity \<or>
    user_id (id_User (FromRequest r)) (id_Realm (FromRequest r))) \<and>
   (id_Token (FromRequest r) \<noteq> [] \<longleftrightarrow> id_Kind (FromRequest r) = KindToken) \<and>
   (id_Kind (FromRequest r) = KindToken \<longleftrightarrow> (\<exists>i. token_of r = Some i)) \<and>
   (id_Kind (FromRequest r) = KindToken \<longleftrightarrow> token_of r = Some (FromRequest r)) \<and>
   (id_Kind (FromRequest r) = KindCookie \<longleftrightarrow> token_of r = None \<and> (\<exists>i. ticket_of r = Some i)) \<and>
   (id_Kind (FromRequest r) = KindCookie \<longleftrightarrow> token_of r = None \<and> ticket_of r = Some (FromRequest r)) \<and>
   (FromRequest r = none_identity \<longleftrightarrow> token_of r = None \<and> ticket_of r = None)"
proof -
  have none: "id_Kind none_identity = KindNone" "id_Token none_identity = []"
    by (simp_all add: none_identity_def)
  have token: "id_Kind i = KindToken \<and> user_id (id_User i) (id_Realm i) \<and> id_Token i \<noteq> []" if "token_of r = Some i" for i
    using that parseToken_shape by (auto simp: token_of_def Let_def split: if_splits)
  have ticket: "id_Kind i = KindCookie \<and> user_id (id_User i) (id_Realm i) \<and> id_Token i = []" if "ticket_of r = Some i" for i
    using that parseCookie_shape by (auto simp: ticket_of_def split: option.splits)
  show ?thesis
  proof (cases "token_of r")
    case (Some i)
    then have f: "FromRequest r = i" by (simp add: FromRequest_cases)
    have "i \<noteq> none_identity" using token [OF Some] none by auto
    with Some token [OF Some] show ?thesis by (simp add: f)
  next
    case t: None
    show ?thesis
    proof (cases "ticket_of r")
      case (Some i)
      with t have f: "FromRequest r = i" by (simp add: FromRequest_cases)
      have "i \<noteq> none_identity" using ticket [OF Some] none by auto
      with Some t ticket [OF Some] show ?thesis by (simp add: f)
    next
      case None
      with t have "FromRequest r = none_identity" by (simp add: FromRequest_cases)
      with None t none show ?thesis by simp
    qed
  qed
qed

text \<open>A browser's request, without a token, is its ticket's user's.\<close>

lemma FromRequest_ticket:
  assumes "Header_Get (rq_Header r) ''Authorization'' = []"
    and "Cookie r ''PVEAuthCookie'' = Some (QueryEscape (''PVE:'' @ user @ '':'' @ rest))"
    and "user_id user realm" and "CHR '':'' \<notin> set user" and "hd user \<noteq> CHR ''!''"
  shows "FromRequest r = \<lparr>id_Kind = KindCookie, id_User = user, id_Realm = realm, id_Token = []\<rparr>"
  using parseCookie_ticket [OF assms(3-5), of rest] assms(1,2) by (simp add: FromRequest_def cookieName_def)

lemma token_without_separator:
  "parseToken ''PVEAPITokenroot@pam!x=y'' =
    Some \<lparr>id_Kind = KindToken, id_User = ''root@pam'', id_Realm = ''pam'', id_Token = ''x''\<rparr>"
  by code_simp

end
