(* ===== verification/Auditlog.thy ===== *)
theory Auditlog imports Classify Identity Jsonout begin

text \<open>
  \<open>internal/audit/audit.go\<close>: reading the parameters of a quota-relevant write without taking
  the body away from the upstream, and the audit record. A Go \<open>nil\<close> map is the empty map: the
  two are read alike everywhere here.
\<close>

section \<open>Reading the body\<close>

definition maxBody :: nat where
  "maxBody = 262144"

definition shouldParseBody :: "request \<Rightarrow> result \<Rightarrow> bool" where
  "shouldParseBody r res =
     (if rq_Body r = None then False
      else if res_Action res = ActionStorageUpload then False
      else if HasPrefix (Header_Get (rq_Header r) ''Content-Type'') ''multipart/'' then False
      else True)"

text \<open>
  \<open>io.ReadAll\<close> of at most \<open>n\<close> bytes of a stream: the bytes, whether the read failed, and what
  is left of the stream; a failed stream stays failed.
\<close>

definition read_limit :: "nat \<Rightarrow> body \<Rightarrow> string \<times> bool \<times> body" where
  "read_limit n b =
     (take n (b_data b), length (b_data b) < n \<and> b_err b, \<lparr>b_data = drop n (b_data b), b_err = b_err b\<rparr>)"

text \<open>\<open>io.MultiReader\<close> of a buffer and the rest of a stream.\<close>

definition chain :: "string \<Rightarrow> body \<Rightarrow> body" where
  "chain buf rest = \<lparr>b_data = buf @ b_data rest, b_err = b_err rest\<rparr>"

definition readAndRestore :: "request \<Rightarrow> body \<Rightarrow> request \<times> string option" where
  "readAndRestore r b =
     (let (buf, err, rest) = read_limit (maxBody + 1) b in
      if err then (r\<lparr>rq_Body := Some (chain buf rest)\<rparr>, None)
      else if maxBody < length buf then (r\<lparr>rq_Body := Some (chain buf rest)\<rparr>, None)
      else
        (r\<lparr>rq_Body := Some \<lparr>b_data = buf, b_err = False\<rparr>, rq_ContentLength := int (length buf),
           rq_GetBody := Some buf\<rparr>, Some buf))"

definition scalar :: "json \<Rightarrow> string" where
  "scalar v =
     (case v of
        JStr t \<Rightarrow> t
      | JNum txt \<Rightarrow>
          (case ParseFloat txt of
             Some t \<Rightarrow>
               if float_eq t (float_of_int (float_to_int t)) then FormatInt (float_to_int t)
               else FormatFloat t
           | None \<Rightarrow> [])
      | JBool t \<Rightarrow> if t then ''1'' else ''0''
      | JNull \<Rightarrow> []
      | _ \<Rightarrow> Marshal v)"

definition media_type :: "string \<Rightarrow> string" where
  "media_type contentType =
     TrimSpace (ToLower (case Index contentType CHR '';'' of None \<Rightarrow> contentType | Some i \<Rightarrow> take i contentType))"

definition parseParams :: "string \<Rightarrow> string \<Rightarrow> params" where
  "parseParams contentType body =
     (let ct = media_type contentType in
      if ct = ''application/json'' \<or> HasSuffix ct ''+json'' then
        (case unmarshal_map body of
           Some m \<Rightarrow> fold (\<lambda>(k, v). map_put k (scalar v)) m []
         | None \<Rightarrow> [])
      else
        (case ParseQuery body of
           Some ps \<Rightarrow> fold (\<lambda>(k, v). map_put k v) (first_values ps) []
         | None \<Rightarrow> []))"

text \<open>The request with its restored body, and the parameters.\<close>

definition Params :: "request \<Rightarrow> result \<Rightarrow> request \<times> params" where
  "Params r res =
     (case (shouldParseBody r res, rq_Body r) of
        (True, Some b) \<Rightarrow>
          (case readAndRestore r b of
             (r', Some buf) \<Rightarrow> (r', parseParams (Header_Get (rq_Header r') ''Content-Type'') buf)
           | (r', None) \<Rightarrow> (r', []))
      | _ \<Rightarrow> (r, []))"

section \<open>The audit record\<close>

definition IsRestore :: "params \<Rightarrow> bool" where
  "IsRestore params =
     (if has_key params ''archive'' then True
      else ToLower (str_at params ''restore'') \<in> {''1'', ''true''})"

definition resourceKeys :: "string list" where
  "resourceKeys =
     [''cores'', ''sockets'', ''vcpus'', ''cpulimit'', ''cpuunits'', ''memory'', ''balloon'', ''shares'',
      ''swap'', ''rootfs'', ''size'', ''disk'', ''newid'', ''vmid'', ''full'', ''storage'', ''target'',
      ''target-vmid'', ''targetstorage'', ''ostemplate'', ''archive'', ''restore'', ''content'',
      ''filename'', ''pool'', ''poolid'', ''vms'', ''delete'', ''efidisk0'', ''tpmstate0'']"

definition indexedPrefixes :: "string list" where
  "indexedPrefixes = [''scsi'', ''virtio'', ''sata'', ''ide'', ''mp'', ''net'', ''unused'']"

definition isResourceKey :: "string \<Rightarrow> bool" where
  "isResourceKey k =
     (let lk = ToLower k in
      if lk \<in> set resourceKeys then True
      else list_ex (\<lambda>p. HasPrefix lk p \<and> allDigits (drop (length p) lk)) indexedPrefixes)"

definition resourceParams :: "params \<Rightarrow> params" where
  "resourceParams params =
     fold (\<lambda>(k, v) out. if isResourceKey k then map_put k v out else out) params []"

definition action_text :: "action \<Rightarrow> string" where
  "action_text a =
     (case a of
        ActionZero \<Rightarrow> []
      | ActionRead \<Rightarrow> ''read''
      | ActionPassthrough \<Rightarrow> ''passthrough''
      | ActionGuestCreate \<Rightarrow> ''guest.create''
      | ActionGuestConfig \<Rightarrow> ''guest.config''
      | ActionResize \<Rightarrow> ''disk.resize''
      | ActionClone \<Rightarrow> ''guest.clone''
      | ActionMoveDisk \<Rightarrow> ''disk.move''
      | ActionRollback \<Rightarrow> ''snapshot.rollback''
      | ActionStorageAlloc \<Rightarrow> ''storage.alloc''
      | ActionStorageUpload \<Rightarrow> ''storage.upload''
      | ActionPoolMembership \<Rightarrow> ''pool.membership''
      | ActionUnknownWrite \<Rightarrow> ''unknown.write'')"

definition kind_text :: "kind \<Rightarrow> string" where
  "kind_text k = (case k of KindNone \<Rightarrow> ''none'' | KindCookie \<Rightarrow> ''cookie'' | KindToken \<Rightarrow> ''token'')"

datatype attr = AStr string | ABool bool | AMap params

definition opt_attr :: "string \<Rightarrow> string \<Rightarrow> (string \<times> attr) list" where
  "opt_attr name v = (if v \<noteq> [] then [(name, AStr v)] else [])"

text \<open>The attributes of the record, in the order they are appended.\<close>

definition Emit :: "identity \<Rightarrow> result \<Rightarrow> params \<Rightarrow> (string \<times> attr) list" where
  "Emit ident res params =
     (let restore = (res_Action res = ActionGuestCreate \<and> IsRestore params);
          resources = resourceParams params
      in [(''event'', AStr ''quota-write''), (''user'', AStr (id_User ident)),
          (''auth'', AStr (kind_text (id_Kind ident))), (''action'', AStr (action_text (res_Action res))),
          (''method'', AStr (res_Method res)), (''path'', AStr (res_Path res)),
          (''envelope'', AStr (res_Envelope res))] @
         opt_attr ''phase'' (res_Phase res) @ opt_attr ''token'' (id_Token ident) @
         opt_attr ''guest'' (res_GuestKind res) @ opt_attr ''node'' (res_Node res) @
         opt_attr ''vmid'' (res_VMID res) @ opt_attr ''storage'' (res_Storage res) @
         (if restore then [(''restore'', ABool True)] else []) @
         (if resources \<noteq> [] then [(''resources'', AMap resources)] else []))"

text \<open>What the audit middleware hands on, with the record it writes, if any.\<close>

definition audit_Middleware :: "request \<Rightarrow> request \<times> (string \<times> attr) list option" where
  "audit_Middleware r =
     (let res = Classify (rq_Method r) (rq_Path r) in
      if res_QuotaRelevant res then
        (let (r', params) = Params r res in (r', Some (Emit (FromRequest r) res params)))
      else (r, None))"

section \<open>Transparency\<close>

lemma read_limit_chain:
  "read_limit n b = (buf, err, rest) \<Longrightarrow> chain buf rest = b"
  by (auto simp: read_limit_def chain_def)

lemma readAndRestore_body:
  assumes "rq_Body r = Some b"
  shows "rq_Body (fst (readAndRestore r b)) = Some b"
proof -
  obtain buf err rest where rd: "read_limit (maxBody + 1) b = (buf, err, rest)" by (metis prod_cases3)
  have "buf = b_data b \<and> \<not> b_err b" if "\<not> err" "\<not> maxBody < length buf"
    using rd that by (auto simp: read_limit_def)
  then show ?thesis
    using rd read_limit_chain [OF rd] by (cases b) (auto simp: readAndRestore_def)
qed

lemma readAndRestore_result:
  "snd (readAndRestore r b) = (if b_err b \<or> maxBody < length (b_data b) then None else Some (b_data b))"
  by (auto simp: readAndRestore_def read_limit_def)

lemma readAndRestore_rest:
  "rq_Method (fst (readAndRestore r b)) = rq_Method r \<and> rq_Path (fst (readAndRestore r b)) = rq_Path r \<and>
   rq_Header (fst (readAndRestore r b)) = rq_Header r"
  by (auto simp: readAndRestore_def Let_def split: prod.splits)

lemma readAndRestore_length:
  "rq_ContentLength (fst (readAndRestore r b)) =
    (if b_err b \<or> maxBody < length (b_data b) then rq_ContentLength r else int (length (b_data b)))"
  by (auto simp: readAndRestore_def read_limit_def)

lemma Params_cases:
  "Params r res =
    (case rq_Body r of
       Some b \<Rightarrow>
         if shouldParseBody r res then
           (fst (readAndRestore r b),
            if b_err b \<or> maxBody < length (b_data b) then []
            else parseParams (Header_Get (rq_Header r) ''Content-Type'') (b_data b))
         else (r, [])
     | None \<Rightarrow> (r, []))"
proof (cases "rq_Body r")
  case None
  then show ?thesis by (simp add: Params_def split: bool.split)
next
  case (Some b)
  obtain r' o' where rd: "readAndRestore r b = (r', o')" by fastforce
  have "o' = (if b_err b \<or> maxBody < length (b_data b) then None else Some (b_data b))"
    and "rq_Header r' = rq_Header r"
    using readAndRestore_result [of r b] readAndRestore_rest [of r b] by (simp_all add: rd)
  then show ?thesis by (simp add: Params_def Some rd split: bool.split)
qed

text \<open>
  C18. Reading the parameters takes nothing away from the upstream: the body that is forwarded
  yields the same bytes and ends the same way, even when the read failed or stopped at the
  cap; method, path and headers are untouched, and the content length that is set is the length
  of the body.
\<close>

theorem Params_transparent:
  "rq_Body (fst (Params r res)) = rq_Body r \<and> rq_Method (fst (Params r res)) = rq_Method r \<and>
   rq_Path (fst (Params r res)) = rq_Path r \<and> rq_Header (fst (Params r res)) = rq_Header r \<and>
   (rq_ContentLength (fst (Params r res)) = rq_ContentLength r \<or>
    (\<exists>b. rq_Body r = Some b \<and> \<not> b_err b \<and> rq_ContentLength (fst (Params r res)) = int (length (b_data b))))"
  using readAndRestore_body [of r] readAndRestore_rest [of r] readAndRestore_length [of r]
  by (auto simp: Params_cases split: option.split)

section \<open>Form parameters\<close>

text \<open>A form as a client encodes it.\<close>

fun form_field :: "string \<times> string \<Rightarrow> string" where
  "form_field (k, v) = QueryEscape k @ CHR ''='' # QueryEscape v"

definition form_body :: "(string \<times> string) list \<Rightarrow> string" where
  "form_body kvs = join CHR ''&'' (map form_field kvs)"

lemma hex_digit_chars: "n < 16 \<Longrightarrow> unreserved (hex_digit n)"
  by (auto simp: hex_digit_def unreserved_def Let_def of_char_of)

lemma QueryEscape_chars: "c \<in> set (QueryEscape s) \<Longrightarrow> unreserved c \<or> c = CHR ''+'' \<or> c = CHR ''%''"
proof (induction s)
  case Nil
  then show ?case by (simp add: QueryEscape_def)
next
  case (Cons a s)
  have "unreserved d \<or> d = CHR ''%''" if "d \<in> set (percent a)" for d
    using that nibbles [of a] by (auto simp: percent_def hex_digit_chars)
  with Cons show ?case by (auto simp: QueryEscape_def split: if_splits)
qed

lemma QueryEscape_no:
  "CHR ''='' \<notin> set (QueryEscape s)" "CHR ''&'' \<notin> set (QueryEscape s)" "CHR '';'' \<notin> set (QueryEscape s)"
proof -
  have "\<not> unreserved CHR ''=''" "\<not> unreserved CHR ''&''" "\<not> unreserved CHR '';''"
    by (simp_all add: unreserved_def)
  then show "CHR ''='' \<notin> set (QueryEscape s)" "CHR ''&'' \<notin> set (QueryEscape s)"
      "CHR '';'' \<notin> set (QueryEscape s)"
    using QueryEscape_chars [of "CHR ''=''" s] QueryEscape_chars [of "CHR ''&''" s]
      QueryEscape_chars [of "CHR '';''" s] by auto
qed

lemma form_field_chars: "CHR ''&'' \<notin> set (form_field p)" "CHR '';'' \<notin> set (form_field p)"
  by (cases p; simp add: QueryEscape_no)+

lemma query_pair_field: "query_pair (form_field (k, v)) = Some (k, v)"
  by (simp add: query_pair_def Cut_append QueryEscape_no QueryUnescape_Escape)

lemma query_pairs_fields: "query_pairs (map form_field kvs) = (kvs, True)"
proof (induction kvs)
  case Nil
  then show ?case by simp
next
  case (Cons p kvs)
  have "form_field p \<noteq> []" by (cases p) simp
  with Cons show ?case
    using form_field_chars(2) [of p] query_pair_field [of "fst p" "snd p"]
    by (simp only: list.map query_pairs.simps Let_def prod.case prod.collapse option.case if_False simp_thms)
qed

lemma ParseQuery_form_body: "ParseQuery (form_body kvs) = Some kvs"
proof (cases "kvs = []")
  case True
  then show ?thesis by (simp add: ParseQuery_def form_body_def)
next
  case False
  then have "Split (form_body kvs) CHR ''&'' = map form_field kvs"
    unfolding form_body_def using form_field_chars(1) by (intro Split_join) auto
  then show ?thesis by (simp add: ParseQuery_def query_pairs_fields)
qed

lemma media_type_form: "media_type ''application/x-www-form-urlencoded'' = ''application/x-www-form-urlencoded''"
  by code_simp

lemma fold_put_self:
  "map_wf ps \<Longrightarrow> map_get (fold (\<lambda>(k, v). map_put k v) ps []) k = map_get ps k"
  using gm.put_all_get [of ps "[]" k] by (simp add: map_wf_def map_get_def split: option.split)

lemma parseParams_form:
  assumes "media_type ct \<noteq> ''application/json''" and "\<not> HasSuffix (media_type ct) ''+json''"
  shows "map_get (parseParams ct (form_body kvs)) k = map_get kvs k"
  using assms fold_put_self [OF first_values_wf, of kvs k]
  by (simp add: parseParams_def ParseQuery_form_body first_values_get)

text \<open>
  C36. The parameters of a form are read back as the client meant them: for a body of at most
  256 KiB that is not an upload, not multipart and not JSON, every key has the first value the
  client gave for it, whatever bytes keys and values hold.
\<close>

theorem Params_form:
  assumes "rq_Body r = Some \<lparr>b_data = form_body kvs, b_err = False\<rparr>" and "length (form_body kvs) \<le> maxBody"
    and "shouldParseBody r res" and "ct = media_type (Header_Get (rq_Header r) ''Content-Type'')"
    and "ct \<noteq> ''application/json''" and "\<not> HasSuffix ct ''+json''"
  shows "map_get (snd (Params r res)) k = map_get kvs k"
  using assms by (simp add: Params_cases parseParams_form)

theorem Params_form_witness:
  "map_get (snd (Params \<lparr>rq_Method = ''POST'', rq_Path = ''/api2/json/nodes/n1/qemu'',
      rq_Header = [(''Content-Type'', [''application/x-www-form-urlencoded''])],
      rq_Body = Some \<lparr>b_data = form_body [(''cores'', ''4''), (''scsi0'', ''tank:32,ssd=1'')], b_err = False\<rparr>,
      rq_ContentLength = 0, rq_GetBody = None\<rparr>
    (Classify ''POST'' ''/api2/json/nodes/n1/qemu''))) ''scsi0'' = Some ''tank:32,ssd=1''"
proof -
  let ?ct = "''application/x-www-form-urlencoded''"
  let ?kvs = "[(''cores'', ''4''), (''scsi0'', ''tank:32,ssd=1'')]"
  let ?r = "\<lparr>rq_Method = ''POST'', rq_Path = ''/api2/json/nodes/n1/qemu'',
      rq_Header = [(''Content-Type'', [?ct])],
      rq_Body = Some \<lparr>b_data = form_body ?kvs, b_err = False\<rparr>,
      rq_ContentLength = 0, rq_GetBody = None\<rparr>"
  let ?res = "Classify ''POST'' ''/api2/json/nodes/n1/qemu''"
  have "length (form_body ?kvs) \<le> maxBody" by code_simp
  moreover have "shouldParseBody ?r ?res" by code_simp
  moreover have "?ct \<noteq> ''application/json''" "\<not> HasSuffix ?ct ''+json''" by code_simp+
  moreover have "?ct = media_type (Header_Get (rq_Header ?r) ''Content-Type'')"
    by (simp add: Header_Get_def media_type_form)
  ultimately have "map_get (snd (Params ?r ?res)) ''scsi0'' = map_get ?kvs ''scsi0''"
    by (intro Params_form) simp_all
  then show ?thesis by simp
qed

section \<open>The record\<close>

lemma resourceParams_fold:
  "map_wf ps \<Longrightarrow> map_get (fold (\<lambda>(k, v) out. if isResourceKey k then map_put k v out else out) ps m) k =
    (if isResourceKey k \<and> map_get ps k \<noteq> None then map_get ps k else map_get m k)"
  by (induction ps arbitrary: m) (auto simp: gm.get_put has_key_def)

lemma resourceParams_get:
  "map_wf ps \<Longrightarrow> map_get (resourceParams ps) k = (if isResourceKey k then map_get ps k else None)"
  by (simp add: resourceParams_def resourceParams_fold)

lemma resourceParams_fold_wf:
  "map_wf m \<Longrightarrow> map_wf (fold (\<lambda>(k, v) out. if isResourceKey k then map_put k v out else out) ps m)"
  by (induction ps arbitrary: m) (auto simp: gm.wf_put)

lemma resourceParams_wf: "map_wf (resourceParams ps)"
  by (simp add: resourceParams_def resourceParams_fold_wf)

lemma Emit_attr:
  "(name, AMap m) \<in> set (Emit ident res ps) \<longleftrightarrow> name = ''resources'' \<and> m = resourceParams ps \<and> m \<noteq> []"
  by (auto simp: Emit_def Let_def opt_attr_def)

lemma fold_put_all_wf: "map_wf m \<Longrightarrow> map_wf (fold (\<lambda>(k, v). map_put k (f v)) ps m)"
  by (induction ps arbitrary: m) (auto simp: gm.wf_put)

lemma parseParams_wf: "map_wf (parseParams ct body)"
  using fold_put_all_wf [of "[]" scalar] fold_put_all_wf [of "[]" id]
  by (auto simp: parseParams_def Let_def split: option.split)

lemma Params_wf: "map_wf (snd (Params r res))"
  by (simp add: Params_cases parseParams_wf split: option.split)

text \<open>
  C35. The audit record of a request holds, of the parameters, exactly those with a resource key,
  with their values; passwords, SSH keys, descriptions and user data are no resource keys, and
  the user, the method and the path are in it.
\<close>

theorem Emit_resources:
  fixes r res ident
  defines "ps \<equiv> snd (Params r res)" and "log \<equiv> Emit ident res (snd (Params r res))"
  shows "{(k, v). \<exists>name m. (name, AMap m) \<in> set log \<and> (k, v) \<in> set m} =
      {(k, v). isResourceKey k \<and> map_get ps k = Some v} \<and>
    (''user'', AStr (id_User ident)) \<in> set log \<and> (''method'', AStr (res_Method res)) \<in> set log \<and>
    (''path'', AStr (res_Path res)) \<in> set log \<and>
    \<not> list_ex isResourceKey [''password'', ''cipassword'', ''sshkeys'', ''ssh-public-keys'', ''description'', ''ciuser'']"
proof -
  have wf: "map_wf ps" by (simp add: ps_def Params_wf)
  have get: "map_get (resourceParams ps) k = (if isResourceKey k then map_get ps k else None)" for k
    by (rule resourceParams_get [OF wf])
  have "{(k, v). \<exists>name m. (name, AMap m) \<in> set log \<and> (k, v) \<in> set m} = {(k, v). (k, v) \<in> set (resourceParams ps)}"
    unfolding log_def ps_def Emit_attr by auto
  also have "\<dots> = {(k, v). isResourceKey k \<and> map_get ps k = Some v}"
    using get by (auto simp flip: map_get_mem [OF resourceParams_wf] split: if_splits)
  finally have entries: "{(k, v). \<exists>name m. (name, AMap m) \<in> set log \<and> (k, v) \<in> set m} =
      {(k, v). isResourceKey k \<and> map_get ps k = Some v}" .
  moreover have "\<not> list_ex isResourceKey
      [''password'', ''cipassword'', ''sshkeys'', ''ssh-public-keys'', ''description'', ''ciuser'']"
    by code_simp
  moreover have "(''user'', AStr (id_User ident)) \<in> set log" "(''method'', AStr (res_Method res)) \<in> set log"
      "(''path'', AStr (res_Path res)) \<in> set log"
    by (simp_all add: log_def Emit_def Let_def)
  ultimately show ?thesis by blast
qed

text \<open>
  A body the layer cannot read gives no parameters at all: the admission that follows decides as
  if the client had sent none.
\<close>

lemma unread_body_has_no_params:
  assumes "rq_Body r = Some b" and "b_err b \<or> maxBody < length (b_data b)"
  shows "snd (Params r res) = []"
  using assms by (simp add: Params_cases)

lemma scalar_cases [simp]:
  "scalar (JStr s) = s" "scalar (JBool b) = (if b then ''1'' else ''0'')" "scalar JNull = []"
  by (simp_all add: scalar_def)

lemma scalar_FormatInt: "exact_int w \<Longrightarrow> scalar (JNum (FormatInt w)) = FormatInt w"
  using number_text_FormatInt [of w] by (simp add: scalar_def number_text_def)

end
