(* ===== verification/Admission.thy ===== *)
theory Admission imports Engine Delta Quota Auditlog begin

text \<open>
  \<open>internal/admission/admission.go\<close>, the decision: the limits that apply, the check of a delta
  against usage and limits, and the choice of the delta for every enforced action. What PVE
  answers while a decision is made is given by two interfaces: \<open>a\<close> for the reads about the
  guest the request names, \<open>b\<close> for the accounting that follows them.
\<close>

section \<open>Data\<close>

datatype settleKind = settleNone | settleCreate | settleGuestMod

record decision =
  dc_allowed :: bool
  dc_reason :: string
  dc_settle :: settleKind
  dc_vmid :: go_int
  dc_pool :: string
  dc_node :: string
  dc_kind :: string
  dc_preCfg :: params

definition plain_decision :: "bool \<Rightarrow> string \<Rightarrow> decision" where
  "plain_decision ok reason =
     \<lparr>dc_allowed = ok, dc_reason = reason, dc_settle = settleNone, dc_vmid = 0, dc_pool = [],
      dc_node = [], dc_kind = [], dc_preCfg = []\<rparr>"

definition enforceable :: "action \<Rightarrow> bool" where
  "enforceable a =
     (a \<in> {ActionGuestCreate, ActionGuestConfig, ActionResize, ActionClone, ActionMoveDisk,
           ActionRollback, ActionStorageAlloc, ActionPoolMembership})"

definition gib :: go_int where
  "gib = 2 ^ 30"

definition ceilGiB :: "go_int \<Rightarrow> go_int" where
  "ceilGiB b = (if b <=s 0 then 0 else go_div (b + gib - 1) gib)"

definition atoi :: "string \<Rightarrow> go_int" where
  "atoi s = Atoi_value s"

section \<open>The check\<close>

definition effectiveLimits :: "user_quota \<Rightarrow> string \<Rightarrow> go_int \<times> go_int \<times> go_int \<times> disks" where
  "effectiveLimits q node =
     (case (if node = [] then None else map_get (q_Nodes q) node) of
        None \<Rightarrow> (q_Cores q, q_MemoryMiB q, q_Instances q, q_DiskGiB q)
      | Some o' \<Rightarrow>
          (case o_Cores o' of Some c \<Rightarrow> c | None \<Rightarrow> q_Cores q,
           case o_MemoryMiB o' of Some m \<Rightarrow> m | None \<Rightarrow> q_MemoryMiB q,
           case o_Instances o' of Some i \<Rightarrow> i | None \<Rightarrow> q_Instances q,
           case o_DiskGiB o' of Some d \<Rightarrow> d | None \<Rightarrow> q_DiskGiB q))"

text \<open>
  The verb \<open>%q\<close>: a quoted Go string. The runes outside ASCII are taken for printable ones.
\<close>

definition quote_byte :: "char \<Rightarrow> string" where
  "quote_byte c =
     (let n = (of_char c :: nat); b = char_of (92 :: nat) in
      if n = 34 \<or> n = 92 then [b, c]
      else if n = 7 then [b, CHR ''a'']
      else if n = 8 then [b, CHR ''b'']
      else if n = 12 then [b, CHR ''f'']
      else if n = 10 then [b, CHR ''n'']
      else if n = 13 then [b, CHR ''r'']
      else if n = 9 then [b, CHR ''t'']
      else if n = 11 then [b, CHR ''v'']
      else if n < 32 \<or> n = 127 then [b, CHR ''x'', hex1 (n div 16), hex1 (n mod 16)]
      else [c])"

function (sequential) quote_chars :: "string \<Rightarrow> string" where
  "quote_chars [] = []"
| "quote_chars (c # s) =
     (if (of_char c :: nat) < 128 then quote_byte c @ quote_chars s
      else
       (let k = multi_byte (c # s) in
        if k = 0 then
          [char_of (92 :: nat), CHR ''x'', hex1 (of_char c div 16), hex1 (of_char c mod 16)] @ quote_chars s
        else take k (c # s) @ quote_chars (drop (k - 1) s)))"
  by pat_completeness auto
termination
  by (relation "measure length") auto

definition Quote :: "string \<Rightarrow> string" where
  "Quote s = [char_of (34 :: nat)] @ quote_chars s @ [char_of (34 :: nat)]"

fun check_disks :: "disks \<Rightarrow> disks \<Rightarrow> (string \<times> go_int) list \<Rightarrow> string option" where
  "check_disks used disk [] = None"
| "check_disks used disk ((st, db) # ds) =
     (if db <=s 0 then check_disks used disk ds
      else case map_get disk st of
        None \<Rightarrow> Some (''storage '' @ Quote st @ '' is not in your quota'')
      | Some lim \<Rightarrow>
          (let combined = ceilGiB (int_at used st + db) in
           if lim <s combined then
             Some (''disk '' @ st @ '': '' @ FormatInt combined @ '' GiB used+requested > '' @
               FormatInt lim @ '' GiB limit'')
           else check_disks used disk ds))"

text \<open>\<open>None\<close> when the delta fits, else the reason.\<close>

definition checkQuota :: "usage \<Rightarrow> delta \<Rightarrow> user_quota \<Rightarrow> string \<Rightarrow> string option" where
  "checkQuota used d q node =
     (let (cores, mem, inst, disk) = effectiveLimits q node in
      if 0 <s d_Cores d \<and> cores <s u_Cores used + d_Cores d then
        Some (''cores: '' @ FormatInt (u_Cores used) @ '' in use + '' @ FormatInt (d_Cores d) @
          '' requested > '' @ FormatInt cores @ '' limit'')
      else if 0 <s d_MemoryMiB d \<and> mem <s u_MemoryMiB used + d_MemoryMiB d then
        Some (''memory: '' @ FormatInt (u_MemoryMiB used) @ '' MiB in use + '' @
          FormatInt (d_MemoryMiB d) @ '' > '' @ FormatInt mem @ '' MiB limit'')
      else if 0 <s d_Instances d \<and> inst <s u_Instances used + d_Instances d then
        Some (''instances: '' @ FormatInt (u_Instances used) @ '' in use + '' @
          FormatInt (d_Instances d) @ '' > '' @ FormatInt inst @ '' limit'')
      else check_disks (u_DiskBytes used) disk (d_DiskBytes d))"

section \<open>The decision\<close>

text \<open>A decision comes with the accounting failures met on the way, message and error.\<close>

type_synonym failures = "(string \<times> api_error) list"

definition onErr :: "bool \<Rightarrow> string \<Rightarrow> api_error \<Rightarrow> decision \<times> failures" where
  "onErr failClosed msg err =
     (if failClosed then (plain_decision False msg, [(msg, err)])
      else (plain_decision True [], [(msg, err)]))"

definition finalizeCreate :: "decision \<times> failures \<Rightarrow> delta \<Rightarrow> go_int \<Rightarrow> string \<Rightarrow> decision \<times> failures" where
  "finalizeCreate r d vmid pool =
     (let (dec, fs) = r in
      if dc_allowed dec \<and> positive d then
        (dec\<lparr>dc_settle := settleCreate, dc_vmid := vmid, dc_pool := pool\<rparr>, fs)
      else (dec, fs))"

definition finalizeGuestMod ::
    "decision \<times> failures \<Rightarrow> delta \<Rightarrow> string \<Rightarrow> string \<Rightarrow> go_int \<Rightarrow> params \<Rightarrow> decision \<times> failures" where
  "finalizeGuestMod r d node kind vmid cur =
     (let (dec, fs) = r in
      if dc_allowed dec \<and> positive d then
        (dec\<lparr>dc_settle := settleGuestMod, dc_vmid := vmid, dc_node := node, dc_kind := kind, dc_preCfg := cur\<rparr>, fs)
      else (dec, fs))"

definition check :: "bool \<Rightarrow> api \<Rightarrow> user_quota \<Rightarrow> string \<Rightarrow> delta \<Rightarrow> decision \<times> failures" where
  "check failClosed b q node d =
     (if \<not> positive d then (plain_decision True [], [])
      else case UserUsage b (q_Pool q) of
        Inl err \<Rightarrow> onErr failClosed ''usage computation failed'' err
      | Inr u \<Rightarrow>
          (case checkQuota u d q node of
             None \<Rightarrow> (plain_decision True [], [])
           | Some reason \<Rightarrow> (plain_decision False reason, [])))"

definition decide_create ::
    "bool \<Rightarrow> api \<Rightarrow> api \<Rightarrow> result \<Rightarrow> user_quota \<Rightarrow> params \<Rightarrow> decision \<times> failures" where
  "decide_create failClosed a b res q params =
     (if IsRestore params then
       (let archive = (if str_at params ''archive'' = [] then str_at params ''ostemplate''
                       else str_at params ''archive'')
        in case RestoreUsage a (res_Node res) archive (res_GuestKind res) of
             Inl err \<Rightarrow> onErr failClosed ''restore config unreadable'' err
           | Inr u \<Rightarrow>
               (let d = usageToDelta u in
                finalizeCreate (check failClosed b q (res_Node res) d) d (atoi (str_at params ''vmid'')) (q_Pool q)))
      else
       (let d = CreateDelta (res_GuestKind res) params in
        finalizeCreate (check failClosed b q (res_Node res) d) d (atoi (str_at params ''vmid'')) (q_Pool q)))"

definition decide_clone ::
    "bool \<Rightarrow> api \<Rightarrow> api \<Rightarrow> result \<Rightarrow> user_quota \<Rightarrow> params \<Rightarrow> decision \<times> failures" where
  "decide_clone failClosed a b res q params =
     (case GuestUsage a (res_Node res) (res_GuestKind res) (atoi (res_VMID res)) of
        Inl err \<Rightarrow> onErr failClosed ''clone source unreadable'' err
      | Inr src \<Rightarrow>
          (let d = CloneDelta src params in
           finalizeCreate (check failClosed b q (res_Node res) d) d (atoi (str_at params ''newid'')) (q_Pool q)))"

definition decide_guest ::
    "bool \<Rightarrow> api \<Rightarrow> api \<Rightarrow> result \<Rightarrow> user_quota \<Rightarrow> params \<Rightarrow> decision \<times> failures" where
  "decide_guest failClosed a b res q params =
     (case GuestConfig a (res_Node res) (res_GuestKind res) (atoi (res_VMID res)) of
        Inl err \<Rightarrow> onErr failClosed ''current config unreadable'' err
      | Inr cur \<Rightarrow>
          (let d = (if res_Action res = ActionResize then ResizeDelta params cur
                    else if res_Action res = ActionMoveDisk then MoveDelta (res_GuestKind res) params cur
                    else ConfigDelta (res_GuestKind res) params cur)
           in finalizeGuestMod (check failClosed b q (res_Node res) d) d (res_Node res) (res_GuestKind res)
                (atoi (res_VMID res)) cur))"

definition decide_rollback ::
    "bool \<Rightarrow> api \<Rightarrow> api \<Rightarrow> result \<Rightarrow> user_quota \<Rightarrow> decision \<times> failures" where
  "decide_rollback failClosed a b res q =
     (case GuestConfig a (res_Node res) (res_GuestKind res) (atoi (res_VMID res)) of
        Inl err \<Rightarrow> onErr failClosed ''current config unreadable'' err
      | Inr cur \<Rightarrow>
          (case SnapshotUsage a (res_Node res) (res_GuestKind res) (atoi (res_VMID res)) (res_Snapshot res) of
             Inl err \<Rightarrow> onErr failClosed ''snapshot config unreadable'' err
           | Inr snapU \<Rightarrow>
               (let d = IncreaseDelta snapU (ConfigUsage (res_GuestKind res) cur) in
                finalizeGuestMod (check failClosed b q (res_Node res) d) d (res_Node res) (res_GuestKind res)
                  (atoi (res_VMID res)) cur)))"

definition decide ::
    "bool \<Rightarrow> api \<Rightarrow> api \<Rightarrow> result \<Rightarrow> user_quota \<Rightarrow> params \<Rightarrow> decision \<times> failures" where
  "decide failClosed a b res q params =
     (case res_Action res of
        ActionGuestCreate \<Rightarrow> decide_create failClosed a b res q params
      | ActionClone \<Rightarrow> decide_clone failClosed a b res q params
      | ActionGuestConfig \<Rightarrow> decide_guest failClosed a b res q params
      | ActionResize \<Rightarrow> decide_guest failClosed a b res q params
      | ActionMoveDisk \<Rightarrow> decide_guest failClosed a b res q params
      | ActionRollback \<Rightarrow> decide_rollback failClosed a b res q
      | ActionStorageAlloc \<Rightarrow> check failClosed b q (res_Node res) (StorageAllocDelta (res_Storage res) params)
      | _ \<Rightarrow> (plain_decision True [], []))"

section \<open>The check against the limits\<close>

text \<open>What a quota promises, in unbounded integers: every dimension that grows stays within its limit.\<close>

definition disk_fits :: "disks \<Rightarrow> disks \<Rightarrow> string \<times> go_int \<Rightarrow> bool" where
  "disk_fits used disk =
     (\<lambda>(st, b). sint b \<le> 0 \<or>
       (case map_get disk st of
          None \<Rightarrow> False
        | Some lim \<Rightarrow> sint (int_at used st) + sint b \<le> sint lim * 2 ^ 30))"

definition fits :: "usage \<Rightarrow> delta \<Rightarrow> user_quota \<Rightarrow> string \<Rightarrow> bool" where
  "fits u d q node =
     (let (cores, mem, inst, disk) = effectiveLimits q node in
      (sint (d_Cores d) \<le> 0 \<or> sint (u_Cores u) + sint (d_Cores d) \<le> sint cores) \<and>
      (sint (d_MemoryMiB d) \<le> 0 \<or> sint (u_MemoryMiB u) + sint (d_MemoryMiB d) \<le> sint mem) \<and>
      (sint (d_Instances d) \<le> 0 \<or> sint (u_Instances u) + sint (d_Instances d) \<le> sint inst) \<and>
      list_all (disk_fits (u_DiskBytes u) disk) (d_DiskBytes d))"

text \<open>The sums the check forms are in the range of 64-bit integers, and nothing in use is negative.\<close>

definition in_int64 :: "int \<Rightarrow> bool" where
  "in_int64 i = (- 9223372036854775808 \<le> i \<and> i < 9223372036854775808)"

definition no_wrap :: "usage \<Rightarrow> delta \<Rightarrow> bool" where
  "no_wrap u d =
     (in_int64 (sint (u_Cores u) + sint (d_Cores d)) \<and>
      in_int64 (sint (u_MemoryMiB u) + sint (d_MemoryMiB d)) \<and>
      in_int64 (sint (u_Instances u) + sint (d_Instances d)) \<and>
      list_all (\<lambda>(st, b). 0 \<le> sint (int_at (u_DiskBytes u) st) \<and>
        sint (int_at (u_DiskBytes u) st) + sint b \<le> 9223372035781033984) (d_DiskBytes d))"

lemma sint_add_in: "in_int64 (sint a + sint b) \<Longrightarrow> sint (a + b) = sint a + sint (b :: go_int)"
  by (auto simp: in_int64_def intro: sint_add_in_range)

lemma ceilGiB_le:
  assumes "0 \<le> sint a" and "0 < sint b" and "sint a + sint b \<le> 9223372035781033984"
  shows "lim <s ceilGiB (a + b) \<longleftrightarrow> sint lim * 2 ^ 30 < sint a + sint b"
proof -
  have s: "sint (a + b) = sint a + sint b"
    using assms by (intro sint_add_in) (simp add: in_int64_def)
  then have "sint (ceilGiB (a + b)) = (sint a + sint b + 1073741823) div 1073741824"
    using assms sint_ceil_gib [of "a + b"] by (simp add: ceilGiB_def gib_def word_sle_eq)
  moreover have "x < (y + 1073741823) div 1073741824 \<longleftrightarrow> x * 1073741824 < y" for x y :: int
    using ceil_gib_bounds [of y] by linarith
  ultimately show ?thesis by (simp add: word_sless_alt)
qed

lemma check_disks_None_iff:
  "check_disks used disk ds = None \<longleftrightarrow>
    list_all (\<lambda>(st, db). db <=s 0 \<or> (\<exists>lim. map_get disk st = Some lim \<and> \<not> lim <s ceilGiB (int_at used st + db))) ds"
  by (induction used disk ds rule: check_disks.induct) (auto simp: Let_def split: option.split)

lemma check_disks_fits:
  assumes "list_all (\<lambda>(st, b). 0 \<le> sint (int_at used st) \<and> sint (int_at used st) + sint b \<le> 9223372035781033984) ds"
  shows "check_disks used disk ds = None \<longleftrightarrow> list_all (disk_fits used disk) ds"
  unfolding check_disks_None_iff
proof (rule list.pred_cong [OF refl])
  fix e
  assume "e \<in> set ds"
  moreover obtain st b where e: "e = (st, b)" by fastforce
  ultimately have r: "0 \<le> sint (int_at used st)" "sint (int_at used st) + sint b \<le> 9223372035781033984"
    using assms by (auto simp: list_all_iff)
  show "(case e of (st, db) \<Rightarrow> db <=s 0 \<or> (\<exists>lim. map_get disk st = Some lim \<and> \<not> lim <s ceilGiB (int_at used st + db)))
      \<longleftrightarrow> disk_fits used disk e"
  proof (cases "sint b \<le> 0")
    case False
    then have "lim <s ceilGiB (int_at used st + b) \<longleftrightarrow> sint lim * 2 ^ 30 < sint (int_at used st) + sint b" for lim
      using r by (intro ceilGiB_le) simp_all
    with False show ?thesis by (simp add: e disk_fits_def word_sle_eq not_less split: option.split)
  qed (simp add: e disk_fits_def word_sle_eq)
qed

lemma checkQuota_None_iff:
  "checkQuota u d q node = None \<longleftrightarrow>
    (let (cores, mem, inst, disk) = effectiveLimits q node in
     \<not> (0 <s d_Cores d \<and> cores <s u_Cores u + d_Cores d) \<and>
     \<not> (0 <s d_MemoryMiB d \<and> mem <s u_MemoryMiB u + d_MemoryMiB d) \<and>
     \<not> (0 <s d_Instances d \<and> inst <s u_Instances u + d_Instances d) \<and>
     check_disks (u_DiskBytes u) disk (d_DiskBytes d) = None)"
  by (auto simp: checkQuota_def split: prod.split if_splits)

lemma checkQuota_fits:
  assumes "no_wrap u d"
  shows "checkQuota u d q node = None \<longleftrightarrow> fits u d q node"
proof -
  have "sint (u_Cores u + d_Cores d) = sint (u_Cores u) + sint (d_Cores d)"
    "sint (u_MemoryMiB u + d_MemoryMiB d) = sint (u_MemoryMiB u) + sint (d_MemoryMiB d)"
    "sint (u_Instances u + d_Instances d) = sint (u_Instances u) + sint (d_Instances d)"
    using assms by (simp_all add: no_wrap_def sint_add_in)
  then show ?thesis
    using assms
    by (auto simp: checkQuota_None_iff fits_def no_wrap_def check_disks_fits word_sless_alt not_less split: prod.split)
qed

text \<open>
  C6. As long as no 64-bit sum overflows, a request is admitted exactly when, in every dimension
  it grows and on every storage it adds to, what is in use and what it asks for stay within the
  limit that applies on the node; a storage without a limit admits nothing.
\<close>

theorem checkQuota_exact:
  assumes "no_wrap u d"
  shows "checkQuota u d q node = None \<longleftrightarrow> fits u d q node"
  using assms by (rule checkQuota_fits)

theorem checkQuota_exact_witness:
  "checkQuota \<lparr>u_Cores = 12, u_MemoryMiB = 1024, u_Instances = 1, u_DiskBytes = [(''tank'', 107374182400)]\<rparr>
     \<lparr>d_Cores = 5, d_MemoryMiB = 0, d_Instances = 1, d_DiskBytes = []\<rparr> demo_quota [] \<noteq> None"
  using checkQuota_exact [of "\<lparr>u_Cores = 12, u_MemoryMiB = 1024, u_Instances = 1, u_DiskBytes = [(''tank'', 107374182400)]\<rparr>"
      "\<lparr>d_Cores = 5, d_MemoryMiB = 0, d_Instances = 1, d_DiskBytes = []\<rparr>" demo_quota "[]"]
  by (simp add: no_wrap_def in_int64_def fits_def effectiveLimits_def demo_quota_def)

text \<open>
  The verdict does not depend on the order in which the storages of a delta are visited; only
  the reason that is given may.
\<close>

theorem verdict_order_free:
  assumes "mset (d_DiskBytes d) = mset ds"
  shows "checkQuota u d q node = None \<longleftrightarrow> checkQuota u (d\<lparr>d_DiskBytes := ds\<rparr>) q node = None"
proof -
  have "set (d_DiskBytes d) = set ds" using assms by (rule mset_eq_setD)
  then show ?thesis
    unfolding checkQuota_None_iff check_disks_None_iff list_all_iff by (simp split: prod.split)
qed

theorem verdict_order_free_witness:
  "checkQuota empty_usage \<lparr>d_Cores = 1, d_MemoryMiB = 0, d_Instances = 1, d_DiskBytes = [(''a'', 1), (''b'', 2)]\<rparr> demo_quota [] = None
    \<longleftrightarrow> checkQuota empty_usage \<lparr>d_Cores = 1, d_MemoryMiB = 0, d_Instances = 1, d_DiskBytes = [(''b'', 2), (''a'', 1)]\<rparr> demo_quota [] = None"
  using verdict_order_free [of "\<lparr>d_Cores = 1, d_MemoryMiB = 0, d_Instances = 1, d_DiskBytes = [(''a'', 1), (''b'', 2)]\<rparr>"
      "[(''b'', 2), (''a'', 1)]" empty_usage demo_quota "[]"] by (simp add: add_mset_commute)

text \<open>With sums that wrap around, a request of almost \<open>2^63\<close> cores is admitted.\<close>

lemma wrapped_sum_admitted:
  "checkQuota \<lparr>u_Cores = 1, u_MemoryMiB = 0, u_Instances = 0, u_DiskBytes = []\<rparr>
     (CreateDelta ''lxc'' [(''cores'', ''9223372036854775807''), (''memory'', ''0'')]) demo_quota [] = None"
proof -
  have "CreateDelta ''lxc'' [(''cores'', ''9223372036854775807''), (''memory'', ''0'')] =
      \<lparr>d_Cores = 9223372036854775807, d_MemoryMiB = 0, d_Instances = 1, d_DiskBytes = []\<rparr>"
    by code_simp
  then show ?thesis
    by (simp add: checkQuota_def effectiveLimits_def demo_quota_def word_sless_alt)
qed

text \<open>A node override replaces a limit, also by a larger one.\<close>

lemma override_widens:
  "effectiveLimits (demo_quota\<lparr>q_Nodes := [(''n1'', \<lparr>o_Cores = Some 1000, o_MemoryMiB = None, o_Instances = None, o_DiskGiB = None\<rparr>)]\<rparr>) ''n1''
    = (1000, 32768, 4, [(''tank'', 500)])"
  by (simp add: effectiveLimits_def demo_quota_def)

section \<open>The decision against its specification\<close>

text \<open>
  What a decision is about: the delta of the request, or the read that failed. The actions
  without a delta of their own grow nothing.
\<close>

definition request_delta :: "api \<Rightarrow> result \<Rightarrow> params \<Rightarrow> api_error + delta" where
  "request_delta a res params =
     (let node = res_Node res; kind = res_GuestKind res; vmid = atoi (res_VMID res) in
      if res_Action res = ActionGuestCreate then
        (if IsRestore params then
           map_sum id usageToDelta (RestoreUsage a node
             (if str_at params ''archive'' = [] then str_at params ''ostemplate'' else str_at params ''archive'') kind)
         else Inr (CreateDelta kind params))
      else if res_Action res = ActionClone then
        map_sum id (\<lambda>src. CloneDelta src params) (GuestUsage a node kind vmid)
      else if res_Action res = ActionGuestConfig then
        map_sum id (ConfigDelta kind params) (GuestConfig a node kind vmid)
      else if res_Action res = ActionResize then
        map_sum id (ResizeDelta params) (GuestConfig a node kind vmid)
      else if res_Action res = ActionMoveDisk then
        map_sum id (MoveDelta kind params) (GuestConfig a node kind vmid)
      else if res_Action res = ActionRollback then
        (case GuestConfig a node kind vmid of
           Inl err \<Rightarrow> Inl err
         | Inr cur \<Rightarrow> map_sum id (\<lambda>s. IncreaseDelta s (ConfigUsage kind cur))
             (SnapshotUsage a node kind vmid (res_Snapshot res)))
      else if res_Action res = ActionStorageAlloc then Inr (StorageAllocDelta (res_Storage res) params)
      else Inr newDelta)"

text \<open>The verdict the policy asks for.\<close>

definition admits :: "bool \<Rightarrow> api_error + delta \<Rightarrow> (api_error + usage) \<Rightarrow> user_quota \<Rightarrow> string \<Rightarrow> bool" where
  "admits failClosed rd ru q node =
     (case rd of
        Inl _ \<Rightarrow> \<not> failClosed
      | Inr d \<Rightarrow>
          \<not> positive d \<or>
          (case ru of Inl _ \<Rightarrow> \<not> failClosed | Inr u \<Rightarrow> checkQuota u d q node = None))"

lemma newDelta_not_positive [simp]: "\<not> positive newDelta"
  by (simp add: positive_def newDelta_def)

lemma onErr_parts [simp]:
  "dc_allowed (fst (onErr fc msg err)) = (\<not> fc)" "snd (onErr fc msg err) = [(msg, err)]"
  "dc_settle (fst (onErr fc msg err)) = settleNone"
  by (simp_all add: onErr_def plain_decision_def)

lemma check_allowed: "dc_allowed (fst (check fc b q node d)) = admits fc (Inr d) (UserUsage b (q_Pool q)) q node"
  by (auto simp: check_def admits_def plain_decision_def split: sum.split option.split)

lemma check_settle: "dc_settle (fst (check fc b q node d)) = settleNone"
  by (auto simp: check_def plain_decision_def onErr_def split: sum.split option.split)

lemma finalize_allowed [simp]:
  "dc_allowed (fst (finalizeCreate r d vmid pool)) = dc_allowed (fst r)"
  "dc_allowed (fst (finalizeGuestMod r d node kind vmid cur)) = dc_allowed (fst r)"
  "snd (finalizeCreate r d vmid pool) = snd r" "snd (finalizeGuestMod r d node kind vmid cur) = snd r"
  by (auto simp: finalizeCreate_def finalizeGuestMod_def split: prod.split)

lemma finalizeCreate_settle:
  "dc_allowed (fst r) \<Longrightarrow> positive d \<Longrightarrow>
    dc_settle (fst (finalizeCreate r d vmid pool)) = settleCreate \<and>
    dc_vmid (fst (finalizeCreate r d vmid pool)) = vmid \<and> dc_pool (fst (finalizeCreate r d vmid pool)) = pool"
  by (auto simp: finalizeCreate_def split: prod.split)

lemma finalizeGuestMod_settle:
  "dc_allowed (fst r) \<Longrightarrow> positive d \<Longrightarrow>
    dc_settle (fst (finalizeGuestMod r d node kind vmid cur)) = settleGuestMod \<and>
    dc_vmid (fst (finalizeGuestMod r d node kind vmid cur)) = vmid \<and>
    dc_node (fst (finalizeGuestMod r d node kind vmid cur)) = node \<and>
    dc_kind (fst (finalizeGuestMod r d node kind vmid cur)) = kind \<and>
    dc_preCfg (fst (finalizeGuestMod r d node kind vmid cur)) = cur"
  by (auto simp: finalizeGuestMod_def split: prod.split)

lemmas decide_defs = decide_def decide_create_def decide_clone_def decide_guest_def decide_rollback_def

lemma decide_allowed:
  "dc_allowed (fst (decide fc a b res q params)) =
    admits fc (request_delta a res params) (UserUsage b (q_Pool q)) q (res_Node res)"
  by (cases "res_Action res")
    (auto simp: decide_defs request_delta_def Let_def check_allowed plain_decision_def admits_def
      split: sum.split)

text \<open>
  C1. The decision of every enforced action is the one the policy asks for on the request's
  delta: a delta that grows nothing is admitted without looking at the usage, one that grows is
  admitted exactly when the pool's usage can be read and has room for it; when a read fails the
  verdict is the failure mode's.
\<close>

theorem decide_refines_policy:
  "dc_allowed (fst (decide fc a b res q params)) \<longleftrightarrow>
    (case request_delta a res params of
       Inl _ \<Rightarrow> \<not> fc
     | Inr d \<Rightarrow>
         if positive d then
           (case UserUsage b (q_Pool q) of Inl _ \<Rightarrow> \<not> fc | Inr u \<Rightarrow> checkQuota u d q (res_Node res) = None)
         else True)"
  by (simp add: decide_allowed admits_def split: sum.split)

text \<open>
  With fail-closed, nothing is admitted unread: an admitted request has a delta that could be
  computed, and either the delta grows nothing, or the pool's usage was read and, no sum
  overflowing, usage plus delta are within the limits.
\<close>

theorem fail_closed_sound:
  assumes "dc_allowed (fst (decide True a b res q params))"
  shows "\<exists>d. request_delta a res params = Inr d \<and>
    (positive d \<longrightarrow>
     (\<exists>u. UserUsage b (q_Pool q) = Inr u \<and> (no_wrap u d \<longrightarrow> fits u d q (res_Node res))))"
  using assms checkQuota_fits unfolding decide_allowed admits_def
  by (auto split: sum.splits)

lemma demo_quota_allows:
  "dc_allowed (fst (decide True demo_api demo_api
    (Classify ''POST'' ''/api2/json/nodes/n1/storage/tank/content'') demo_quota []))"
proof -
  have "res_Action (Classify ''POST'' ''/api2/json/nodes/n1/storage/tank/content'') = ActionStorageAlloc"
    by code_simp
  moreover have "ParseSize [] = None" by code_simp
  ultimately show ?thesis
    by (simp add: decide_def check_def plain_decision_def StorageAllocDelta_def str_at_def)
qed

theorem fail_closed_sound_witness:
  "\<exists>d. request_delta demo_api (Classify ''POST'' ''/api2/json/nodes/n1/storage/tank/content'') [] = Inr d"
  using fail_closed_sound [OF demo_quota_allows] by blast

text \<open>
  An accounting failure is never silent and decides by mode: when the request's own reads
  fail, or its delta grows and the usage cannot be read, exactly one failure is recorded, and
  the request is denied with fail-closed and admitted without.
\<close>

theorem accounting_failure_mode:
  assumes "request_delta a res params = Inl err \<or>
    (\<exists>d. request_delta a res params = Inr d \<and> positive d \<and> UserUsage b (q_Pool q) = Inl err)"
  shows "(\<exists>msg. snd (decide fc a b res q params) = [(msg, err)]) \<and>
    (dc_allowed (fst (decide fc a b res q params)) \<longleftrightarrow> fc = False)"
proof
  show "dc_allowed (fst (decide fc a b res q params)) \<longleftrightarrow> fc = False"
    using assms by (auto simp: decide_allowed admits_def)
  show "\<exists>msg. snd (decide fc a b res q params) = [(msg, err)]"
    using assms
    by (cases "res_Action res")
      (auto simp: decide_defs request_delta_def Let_def check_def split: sum.splits if_splits)
qed

theorem accounting_failure_mode_witness:
  "dc_allowed (fst (decide True demo_api demo_api
    (Classify ''POST'' ''/api2/json/nodes/n1/qemu'') (demo_quota\<lparr>q_Pool := ''gone''\<rparr>) [])) = False"
proof -
  let ?res = "Classify ''POST'' ''/api2/json/nodes/n1/qemu''"
  have "res_Action ?res = ActionGuestCreate" "IsRestore [] = False" by code_simp+
  then have d: "request_delta demo_api ?res [] = Inr (CreateDelta (res_GuestKind ?res) [])"
    by (simp add: request_delta_def)
  have "positive (CreateDelta (res_GuestKind ?res) [])"
    by (simp add: positive_def CreateDelta_def word_sless_alt)
  moreover have "UserUsage demo_api ''gone'' = Inl (PoolError ''gone'' (ApiError ''404''))"
    by (simp add: UserUsage_def demo_api_def)
  ultimately show ?thesis
    using accounting_failure_mode [of demo_api ?res "[]" "PoolError ''gone'' (ApiError ''404'')" demo_api
        "demo_quota\<lparr>q_Pool := ''gone''\<rparr>" True] d by simp
qed

section \<open>Settling\<close>

definition settles :: "api \<Rightarrow> result \<Rightarrow> user_quota \<Rightarrow> params \<Rightarrow> decision \<Rightarrow> bool" where
  "settles a res q params dec =
     (if res_Action res = ActionGuestCreate then
        dc_settle dec = settleCreate \<and> dc_pool dec = q_Pool q \<and> dc_vmid dec = atoi (str_at params ''vmid'')
      else if res_Action res = ActionClone then
        dc_settle dec = settleCreate \<and> dc_pool dec = q_Pool q \<and> dc_vmid dec = atoi (str_at params ''newid'')
      else
        dc_settle dec = settleGuestMod \<and> dc_vmid dec = atoi (res_VMID res) \<and> dc_node dec = res_Node res \<and>
        dc_kind dec = res_GuestKind res \<and>
        GuestConfig a (res_Node res) (res_GuestKind res) (atoi (res_VMID res)) = Inr (dc_preCfg dec))"

lemma check_growth:
  "dc_allowed (fst (check fc b q node d)) \<Longrightarrow> positive d \<Longrightarrow>
    settles a res q params (fst (finalizeCreate (check fc b q node d) d v (q_Pool q))) \<longleftrightarrow>
      (res_Action res = ActionGuestCreate \<and> v = atoi (str_at params ''vmid'') \<or>
       res_Action res = ActionClone \<and> v = atoi (str_at params ''newid''))"
  using finalizeCreate_settle [of "check fc b q node d" d v "q_Pool q"] by (auto simp: settles_def)

text \<open>Growth that the accounting can see; a raw volume allocation shows in no config.\<close>

definition growth :: "api \<Rightarrow> result \<Rightarrow> params \<Rightarrow> bool" where
  "growth a res params =
     (res_Action res \<noteq> ActionStorageAlloc \<and>
      (case request_delta a res params of Inl _ \<Rightarrow> False | Inr d \<Rightarrow> positive d))"

lemma growth_is_settled:
  assumes "dc_allowed (fst (decide fc a b res q params))" and "growth a res params"
  shows "settles a res q params (fst (decide fc a b res q params))"
proof -
  obtain d where d: "request_delta a res params = Inr d" "positive d" "res_Action res \<noteq> ActionStorageAlloc"
    using assms(2) by (auto simp: growth_def split: sum.splits)
  show ?thesis
  proof (cases "res_Action res")
    case ActionGuestCreate
    then show ?thesis
      using assms d
      by (auto simp: decide_defs request_delta_def Let_def check_growth split: sum.splits if_splits)
  next
    case ActionClone
    then show ?thesis
      using assms d by (auto simp: decide_defs request_delta_def Let_def check_growth split: sum.splits)
  next
    case ActionRollback
    then show ?thesis
      using assms d finalizeGuestMod_settle
      by (auto simp: decide_defs request_delta_def Let_def settles_def split: sum.splits)
  qed (use assms d finalizeGuestMod_settle in
      \<open>auto simp: decide_defs request_delta_def Let_def settles_def split: sum.splits\<close>)
qed

lemma finalize_none:
  "\<not> positive d \<Longrightarrow> finalizeCreate r d vmid pool = r"
  "\<not> positive d \<Longrightarrow> finalizeGuestMod r d node kind vmid cur = r"
  by (simp_all add: finalizeCreate_def finalizeGuestMod_def split: prod.split)

lemma no_growth_no_settle:
  assumes "\<not> growth a res params"
  shows "dc_settle (fst (decide fc a b res q params)) = settleNone"
  using assms
  by (cases "res_Action res")
    (auto simp: decide_defs growth_def request_delta_def Let_def check_settle finalize_none plain_decision_def
      split: sum.splits)

section \<open>The usage is a proper map of disks\<close>

lemma user_usage_loop_wf:
  "user_usage_loop a ms u cache = Inr v \<Longrightarrow> map_wf (u_DiskBytes u) \<Longrightarrow> map_wf (u_DiskBytes v)"
proof (induction a ms u cache rule: user_usage_loop.induct)
  case (2 a m ms u cache)
  then show ?case
    using add_unused_wf [OF add_disks_wf, of "u_DiskBytes u"]
    by (auto simp: Let_def split: if_splits sum.splits prod.splits) (metis fst_conv)+
qed simp

lemma UserUsage_wf: "UserUsage a p = Inr u \<Longrightarrow> map_wf (u_DiskBytes u)"
  using user_usage_loop_wf [of a _ empty_usage "[]" u] by (auto simp: UserUsage_def empty_usage_def split: sum.splits)

end
