(* ===== verification/Response.thy ===== *)
theory Response imports Httpreq begin

text \<open>
  Response writers: \<open>statusCapture\<close> of \<open>internal/admission/admission.go\<close> and \<open>statusWriter\<close> of
  \<open>internal/proxy/accesslog.go\<close>, which record the status a handler writes and hand everything on,
  and the access log. A handler's output is the sequence of its calls on the writer.
\<close>

section \<open>The interface\<close>

datatype write_op = WriteHeader nat | Write string

text \<open>
  What both wrappers promise: every call reaches the wrapped writer, and the first status code
  is kept.
\<close>

locale status_recorder =
  fixes step :: "write_op \<Rightarrow> 'w \<Rightarrow> 'w"
    and status :: "'w \<Rightarrow> nat"
    and out :: "'w \<Rightarrow> write_op list"
  assumes step_out: "out (step x w) = out w @ [x]"
    and step_header: "status (step (WriteHeader c) w) = (if status w = 0 then c else status w)"
    and step_kept: "status w \<noteq> 0 \<Longrightarrow> status (step x w) = status w"
begin

lemma run_out: "out (fold step xs w) = out w @ xs"
  by (induction xs arbitrary: w) (simp_all add: step_out)

lemma run_kept: "status w \<noteq> 0 \<Longrightarrow> status (fold step xs w) = status w"
  by (induction xs arbitrary: w) (simp_all add: step_kept)

lemma run_header:
  assumes "status w = 0" and "c \<noteq> 0"
  shows "status (fold step (WriteHeader c # xs) w) = c"
  using assms run_kept [of "step (WriteHeader c) w" xs] by (simp add: step_header)

end

section \<open>statusCapture\<close>

record status_capture =
  sc_status :: nat
  sc_out :: "write_op list"

fun statusCapture :: "write_op \<Rightarrow> status_capture \<Rightarrow> status_capture" where
  "statusCapture (WriteHeader code) s =
     (let s1 = (if sc_status s = 0 then s\<lparr>sc_status := code\<rparr> else s)
      in s1\<lparr>sc_out := sc_out s1 @ [WriteHeader code]\<rparr>)"
| "statusCapture (Write b) s =
     (let s1 = (if sc_status s = 0 then s\<lparr>sc_status := 200\<rparr> else s)
      in s1\<lparr>sc_out := sc_out s1 @ [Write b]\<rparr>)"

definition fresh_capture :: status_capture where
  "fresh_capture = \<lparr>sc_status = 0, sc_out = []\<rparr>"

interpretation cap: status_recorder statusCapture sc_status sc_out
proof (unfold_locales, goal_cases)
  case (1 x w)
  then show ?case by (cases x) (simp_all add: Let_def)
next
  case (3 w x)
  then show ?case by (cases x) (simp_all add: Let_def)
qed (simp add: Let_def)

section \<open>statusWriter\<close>

text \<open>\<open>accepted\<close> is the number of bytes the connection reports to have taken of a write.\<close>

record status_writer =
  sw_status :: nat
  sw_bytes :: go_int
  sw_out :: "write_op list"

fun statusWriter :: "(string \<Rightarrow> go_int) \<Rightarrow> write_op \<Rightarrow> status_writer \<Rightarrow> status_writer" where
  "statusWriter accepted (WriteHeader code) w =
     (let w1 = (if sw_status w = 0 then w\<lparr>sw_status := code\<rparr> else w)
      in w1\<lparr>sw_out := sw_out w1 @ [WriteHeader code]\<rparr>)"
| "statusWriter accepted (Write b) w =
     w\<lparr>sw_out := sw_out w @ [Write b], sw_bytes := sw_bytes w + accepted b\<rparr>"

definition fresh_writer :: status_writer where
  "fresh_writer = \<lparr>sw_status = 0, sw_bytes = 0, sw_out = []\<rparr>"

interpretation acc: status_recorder "statusWriter accepted" sw_status sw_out
  for accepted
proof (unfold_locales, goal_cases)
  case (1 x w)
  then show ?case by (cases x) (simp_all add: Let_def)
next
  case (3 w x)
  then show ?case by (cases x) (simp_all add: Let_def)
qed (simp add: Let_def)

section \<open>The access log\<close>

record access_entry =
  al_method :: string
  al_path :: string
  al_status :: nat
  al_bytes_out :: go_int
  al_upgrade :: string

text \<open>The handler's calls go through the writer; the entry is made from it afterwards.\<close>

definition WithAccessLog ::
    "(string \<Rightarrow> go_int) \<Rightarrow> (request \<Rightarrow> write_op list) \<Rightarrow> request \<Rightarrow> write_op list \<times> access_entry" where
  "WithAccessLog accepted handler r =
     (let sw = fold (statusWriter accepted) (handler r) fresh_writer;
          status = (if sw_status sw = 0 then 200 else sw_status sw)
      in (sw_out sw,
          \<lparr>al_method = rq_Method r, al_path = rq_Path r, al_status = status, al_bytes_out = sw_bytes sw,
           al_upgrade = Header_Get (rq_Header r) ''Upgrade''\<rparr>))"

text \<open>The status a server sends for a sequence of calls: the first code that is final, 200 without one.\<close>

fun sent_status :: "write_op list \<Rightarrow> nat" where
  "sent_status [] = 200"
| "sent_status (WriteHeader c # xs) = (if c < 200 \<and> c \<noteq> 101 then sent_status xs else c)"
| "sent_status (Write b # xs) = 200"

lemma statusWriter_bytes:
  "sw_bytes (fold (statusWriter accepted) xs w) =
    sw_bytes w + (\<Sum>x \<leftarrow> xs. case x of Write b \<Rightarrow> accepted b | WriteHeader _ \<Rightarrow> 0)"
  by (induction xs arbitrary: w) (auto simp: Let_def split: write_op.split)

lemma statusWriter_writes: "sw_status (fold (statusWriter accepted) (map Write bs) w) = sw_status w"
  by (induction bs arbitrary: w) auto

text \<open>The first status code a handler announces, wherever in its output.\<close>

fun announced :: "write_op list \<Rightarrow> nat option" where
  "announced [] = None"
| "announced (WriteHeader c # xs) = Some c"
| "announced (Write b # xs) = announced xs"

text \<open>The codes \<open>net/http\<close> lets a handler announce; it panics on others.\<close>

definition legal :: "write_op list \<Rightarrow> bool" where
  "legal xs = list_all (\<lambda>x. case x of WriteHeader c \<Rightarrow> 100 \<le> c | Write _ \<Rightarrow> True) xs"

text \<open>An informational answer before the final one; a header other than 200 after the body has begun.\<close>

definition informational_first :: "write_op list \<Rightarrow> bool" where
  "informational_first xs = (case xs of WriteHeader c # _ \<Rightarrow> c < 200 \<and> c \<noteq> 101 | _ \<Rightarrow> False)"

definition header_late :: "write_op list \<Rightarrow> bool" where
  "header_late xs = (case xs of Write _ # ys \<Rightarrow> (case announced ys of None \<Rightarrow> False | Some c \<Rightarrow> c \<noteq> 200) | _ \<Rightarrow> False)"

lemma statusWriter_status:
  "legal xs \<Longrightarrow> sw_status w = 0 \<Longrightarrow>
    sw_status (fold (statusWriter accepted) xs w) = (case announced xs of None \<Rightarrow> 0 | Some c \<Rightarrow> c)"
proof (induction xs arbitrary: w)
  case (Cons x xs)
  show ?case
  proof (cases x)
    case (WriteHeader c)
    then have "c \<noteq> 0" using Cons.prems(1) by (simp add: legal_def)
    with WriteHeader Cons.prems(2) acc.run_header [of w c accepted xs] show ?thesis by simp
  next
    case (Write b)
    with Cons.prems Cons.IH [of "statusWriter accepted x w"] show ?thesis by (simp add: legal_def)
  qed
qed simp

lemma announced_pos: "legal xs \<Longrightarrow> announced xs \<noteq> Some 0"
  by (induction xs rule: announced.induct) (auto simp: legal_def)

lemma sent_final: "legal xs \<Longrightarrow> sent_status xs = 101 \<or> 200 \<le> sent_status xs"
  by (induction xs rule: sent_status.induct) (auto simp: legal_def)

text \<open>
  C39. The access log changes nothing of the response, counts the bytes the connection took, and
  logs the first status code the handler announces, 200 when it announces none. That is the status
  the client is sent except in two cases: an informational answer came first, or a header other
  than 200 after the body had begun.
\<close>

theorem access_log_faithful:
  assumes "legal (handler r)"
  shows "fst (WithAccessLog accepted handler r) = handler r \<and>
    al_bytes_out (snd (WithAccessLog accepted handler r)) =
      (\<Sum>x \<leftarrow> handler r. case x of Write b \<Rightarrow> accepted b | WriteHeader _ \<Rightarrow> 0) \<and>
    al_status (snd (WithAccessLog accepted handler r)) =
      (case announced (handler r) of None \<Rightarrow> 200 | Some c \<Rightarrow> c) \<and>
    (al_status (snd (WithAccessLog accepted handler r)) \<noteq> sent_status (handler r) \<longleftrightarrow>
      informational_first (handler r) \<or> header_late (handler r))"
proof -
  let ?xs = "handler r" and ?w = "fold (statusWriter accepted) (handler r) fresh_writer"
  have out: "sw_out ?w = ?xs" by (simp add: acc.run_out fresh_writer_def)
  have bytes: "sw_bytes ?w = (\<Sum>x \<leftarrow> ?xs. case x of Write b \<Rightarrow> accepted b | WriteHeader _ \<Rightarrow> 0)"
    by (simp add: statusWriter_bytes fresh_writer_def)
  have pos: "announced ?xs \<noteq> Some 0"
    using assms by (rule announced_pos)
  then have status: "(if sw_status ?w = 0 then 200 else sw_status ?w) = (case announced ?xs of None \<Rightarrow> 200 | Some c \<Rightarrow> c)"
    using statusWriter_status [OF assms, of fresh_writer accepted] by (auto simp: fresh_writer_def split: option.splits)
  have "(case announced ?xs of None \<Rightarrow> 200 | Some c \<Rightarrow> c) \<noteq> sent_status ?xs \<longleftrightarrow>
      informational_first ?xs \<or> header_late ?xs"
  proof (cases ?xs rule: announced.cases)
    case (2 c ys)
    then have "legal ys" "100 \<le> c" using assms by (simp_all add: legal_def)
    then show ?thesis
      using 2 sent_final [of ys] by (auto simp: informational_first_def header_late_def)
  qed (auto simp: informational_first_def header_late_def split: option.split)
  then show ?thesis using out bytes status by (simp add: WithAccessLog_def Let_def)
qed

theorem access_log_faithful_witness:
  "al_status (snd (WithAccessLog (\<lambda>b. of_nat (length b)) (\<lambda>r. [WriteHeader 404, Write ''no''])
    \<lparr>rq_Method = ''GET'', rq_Path = ''/'', rq_Header = [], rq_Body = None, rq_ContentLength = 0, rq_GetBody = None\<rparr>)) = 404"
  using access_log_faithful [of "\<lambda>r. [WriteHeader 404, Write ''no'']"
      "\<lparr>rq_Method = ''GET'', rq_Path = ''/'', rq_Header = [], rq_Body = None, rq_ContentLength = 0, rq_GetBody = None\<rparr>"
      "\<lambda>b. of_nat (length b)"]
  by (simp add: legal_def)

text \<open>
  An informational header sent first is the status both wrappers keep, whatever follows.
\<close>

lemma informational_status_kept:
  "sc_status (fold statusCapture [WriteHeader 103, WriteHeader 500] fresh_capture) = 103"
  "sw_status (fold (statusWriter accepted) [WriteHeader 103, WriteHeader 500] fresh_writer) = 103"
  by (simp_all add: fresh_capture_def fresh_writer_def)

end
