(* ===== verification/Enforcer.thy ===== *)
theory Enforcer imports Admission Response begin

text \<open>
  \<open>internal/admission/admission.go\<close>, the middleware: what happens to one request, as a trace of
  its effects, the response, the counters and the table of mutexes. The store's content, the
  answers of PVE at the successive reads and the upstream handler are the \<open>world\<close> of the request.
\<close>

section \<open>State\<close>

record options =
  op_hasStore :: bool
  op_hasEngine :: bool
  op_Admins :: "string list"
  op_Enforce :: bool
  op_FailClosed :: bool
  op_DefaultDeny :: bool

record metrics =
  mt_audited :: go_int
  mt_allowed :: go_int
  mt_denied :: go_int
  mt_failOpen :: go_int
  mt_failShut :: go_int

definition zero_metrics :: metrics where
  "zero_metrics = \<lparr>mt_audited = 0, mt_allowed = 0, mt_denied = 0, mt_failOpen = 0, mt_failShut = 0\<rparr>"

record enforcer =
  e_store :: bool
  e_engine :: bool
  e_admins :: "(string, bool) gomap"
  e_enforce :: bool
  e_failClosed :: bool
  e_defaultDeny :: bool

definition New :: "options \<Rightarrow> enforcer" where
  "New opts =
     \<lparr>e_store = op_hasStore opts, e_engine = op_hasEngine opts,
      e_admins = fold (\<lambda>a. map_put a True) (op_Admins opts) [],
      e_enforce = op_Enforce opts, e_failClosed = op_FailClosed opts, e_defaultDeny = op_DefaultDeny opts\<rparr>"

definition is_admin :: "enforcer \<Rightarrow> string \<Rightarrow> bool" where
  "is_admin e user = (map_get (e_admins e) user = Some True)"

text \<open>A mutex is named by the number of mutexes made before it.\<close>

type_synonym locks = "(string, nat) gomap"

definition locks_get :: "locks \<Rightarrow> string \<Rightarrow> nat \<times> locks" where
  "locks_get l user =
     (case map_get l user of
        Some m \<Rightarrow> (m, l)
      | None \<Rightarrow> (length l, map_put user (length l) l))"

record estate =
  es_metrics :: metrics
  es_locks :: locks

definition start_state :: estate where
  "start_state = \<lparr>es_metrics = zero_metrics, es_locks = []\<rparr>"

section \<open>Metrics\<close>

definition line :: "string \<Rightarrow> string" where
  "line s = s @ [CHR 0x0A]"

definition labelled :: "string \<Rightarrow> string \<Rightarrow> string \<Rightarrow> go_int \<Rightarrow> string" where
  "labelled name label v n =
     line (name @ ''{'' @ label @ ''='' @ [char_of (34 :: nat)] @ v @ [char_of (34 :: nat)] @ ''} '' @ FormatInt n)"

definition WriteMetrics :: "metrics \<Rightarrow> string" where
  "WriteMetrics m =
     line ''# HELP uq_quota_writes_total Quota-relevant writes observed.'' @
     line ''# TYPE uq_quota_writes_total counter'' @
     line (''uq_quota_writes_total '' @ FormatInt (mt_audited m)) @
     line ''# HELP uq_admission_total Admission decisions for enforced writes.'' @
     line ''# TYPE uq_admission_total counter'' @
     labelled ''uq_admission_total'' ''decision'' ''allow'' (mt_allowed m) @
     labelled ''uq_admission_total'' ''decision'' ''deny'' (mt_denied m) @
     line ''# HELP uq_accounting_errors_total Accounting failures by mode.'' @
     line ''# TYPE uq_accounting_errors_total counter'' @
     labelled ''uq_accounting_errors_total'' ''mode'' ''fail_open'' (mt_failOpen m) @
     labelled ''uq_accounting_errors_total'' ''mode'' ''fail_closed'' (mt_failShut m)"

definition count_failures :: "bool \<Rightarrow> failures \<Rightarrow> metrics \<Rightarrow> metrics" where
  "count_failures failClosed fs m =
     fold (\<lambda>_ m. if failClosed then m\<lparr>mt_failShut := mt_failShut m + 1\<rparr>
                 else m\<lparr>mt_failOpen := mt_failOpen m + 1\<rparr>) fs m"

section \<open>Waiting\<close>

text \<open>
  The polls of a wait: what PVE answers at each iteration that starts before the deadline. The
  result is the number of polls made and whether the change was seen.
\<close>

fun poll :: "(api \<Rightarrow> bool) \<Rightarrow> api list \<Rightarrow> nat \<times> bool" where
  "poll seen [] = (0, False)"
| "poll seen (a # as) = (if seen a then (1, True) else (let (n, ok) = poll seen as in (Suc n, ok)))"

definition waitMember :: "string \<Rightarrow> go_int \<Rightarrow> api list \<Rightarrow> nat \<times> bool" where
  "waitMember pool vmid polls =
     (if vmid = 0 then (0, False)
      else poll (\<lambda>a. case PoolMemberSet a pool of Inl _ \<Rightarrow> False | Inr members \<Rightarrow> map_get members vmid = Some True) polls)"

definition sameConfig :: "params \<Rightarrow> params \<Rightarrow> bool" where
  "sameConfig a b =
     (if length a \<noteq> length b then False else list_all (\<lambda>(k, v). str_at b k = v) a)"

definition waitConfigChanged :: "string \<Rightarrow> string \<Rightarrow> go_int \<Rightarrow> params \<Rightarrow> api list \<Rightarrow> nat \<times> bool" where
  "waitConfigChanged node kind vmid pre polls =
     (if vmid = 0 then (0, False)
      else poll (\<lambda>a. case GuestConfig a node kind vmid of Inl _ \<Rightarrow> False | Inr cur \<Rightarrow> \<not> sameConfig pre cur) polls)"

section \<open>Denial\<close>

definition deny_body :: "string \<Rightarrow> string \<Rightarrow> string" where
  "deny_body envelope reason =
     (let msg = ''uq-proxy quota: '' @ reason in
      line (Marshal (JObj
        (if envelope = ''extjs'' then
           [(''success'', JNum ''0''), (''message'', JStr msg), (''data'', JNull)]
         else [(''data'', JNull), (''message'', JStr msg)]))))"

definition deny_response :: "result \<Rightarrow> string \<Rightarrow> write_op list" where
  "deny_response res reason =
     [WriteHeader (if res_Envelope res = ''extjs'' then 200 else 403),
      Write (deny_body (res_Envelope res) reason)]"

section \<open>One request\<close>

record world =
  w_store :: store
  w_target :: api
  w_usage :: api
  w_polls :: "api list"
  w_next :: "request \<Rightarrow> write_op list"

datatype event =
    Audited "(string \<times> attr) list"
  | UnknownForwarded string
  | Locked nat
  | Unlocked nat
  | Denied string
  | Forwarded request
  | Waited nat bool
  | Panicked

text \<open>The new state, the effects in their order, and the calls on the response writer.\<close>

type_synonym outcome = "estate \<times> event list \<times> write_op list"

definition with_denial :: "result \<Rightarrow> string \<Rightarrow> estate \<Rightarrow> event list \<Rightarrow> outcome" where
  "with_denial res reason st evs =
     (st\<lparr>es_metrics := (es_metrics st)\<lparr>mt_denied := mt_denied (es_metrics st) + 1\<rparr>\<rparr>,
      evs @ [Denied reason], deny_response res reason)"

definition add_audited :: "estate \<Rightarrow> estate" where
  "add_audited st = st\<lparr>es_metrics := (es_metrics st)\<lparr>mt_audited := mt_audited (es_metrics st) + 1\<rparr>\<rparr>"

definition handleUnknown :: "enforcer \<Rightarrow> world \<Rightarrow> request \<Rightarrow> result \<Rightarrow> estate \<Rightarrow> outcome" where
  "handleUnknown e w r res st =
     (let ident = FromRequest r; st1 = add_audited st in
      if e_enforce e \<and> e_defaultDeny e \<and> \<not> is_admin e (id_User ident) then
        with_denial res ''write endpoint not in the quota allowlist (default-deny)'' st1 []
      else (st1, [UnknownForwarded (id_User ident), Forwarded r], w_next w r))"

text \<open>Forwarding under the lock, and the wait that follows an answer below 300.\<close>

definition forward_and_settle :: "world \<Rightarrow> request \<Rightarrow> decision \<Rightarrow> event list \<times> write_op list" where
  "forward_and_settle w r dec =
     (let sc = fold statusCapture (w_next w r) fresh_capture;
          waited =
            (if 300 \<le> sc_status sc then []
             else case dc_settle dec of
               settleNone \<Rightarrow> []
             | settleCreate \<Rightarrow>
                 (let (n, ok) = waitMember (dc_pool dec) (dc_vmid dec) (w_polls w) in [Waited n ok])
             | settleGuestMod \<Rightarrow>
                 (let (n, ok) = waitConfigChanged (dc_node dec) (dc_kind dec) (dc_vmid dec) (dc_preCfg dec) (w_polls w)
                  in [Waited n ok]))
      in (Forwarded r # waited, sc_out sc))"

definition enforce_locked ::
    "enforcer \<Rightarrow> world \<Rightarrow> request \<Rightarrow> result \<Rightarrow> user_quota \<Rightarrow> params \<Rightarrow> estate \<Rightarrow> outcome" where
  "enforce_locked e w r res q params st =
     (let (dec, fs) = decide (e_failClosed e) (w_target w) (w_usage w) res q params;
          st1 = st\<lparr>es_metrics := count_failures (e_failClosed e) fs (es_metrics st)\<rparr>
      in if \<not> dc_allowed dec then with_denial res (dc_reason dec) st1 []
         else
          (let (evs, resp) = forward_and_settle w r dec in
           (st1\<lparr>es_metrics := (es_metrics st1)\<lparr>mt_allowed := mt_allowed (es_metrics st1) + 1\<rparr>\<rparr>, evs, resp)))"

text \<open>
  A user's record may be \<open>nil\<close> in a store that was not validated. The decision then panics where it
  looks at the record: for a delta that grows, and for every create and clone whose delta could be
  computed. Elsewhere the record is not looked at.
\<close>

definition derefs :: "api \<Rightarrow> result \<Rightarrow> params \<Rightarrow> bool" where
  "derefs a res params =
     (case request_delta a res params of
        Inl _ \<Rightarrow> False
      | Inr d \<Rightarrow> positive d \<or> res_Action res = ActionGuestCreate \<or> res_Action res = ActionClone)"

definition nil_quota :: user_quota where
  "nil_quota = \<lparr>q_Pool = [], q_Cores = 0, q_MemoryMiB = 0, q_Instances = 0, q_DiskGiB = [], q_Nodes = []\<rparr>"

definition locked_section ::
    "enforcer \<Rightarrow> world \<Rightarrow> request \<Rightarrow> result \<Rightarrow> user_quota option \<Rightarrow> params \<Rightarrow> estate \<Rightarrow> outcome" where
  "locked_section e w r res qo params st =
     (case qo of
        Some q \<Rightarrow> enforce_locked e w r res q params st
      | None \<Rightarrow>
          if derefs (w_target w) res params then (st, [Panicked], [])
          else enforce_locked e w r res nil_quota params st)"

definition Middleware :: "enforcer \<Rightarrow> world \<Rightarrow> request \<Rightarrow> estate \<Rightarrow> outcome" where
  "Middleware e w r st =
     (let res = Classify (rq_Method r) (rq_Path r) in
      if res_Action res = ActionUnknownWrite then handleUnknown e w r res st
      else if \<not> res_QuotaRelevant res then (st, [Forwarded r], w_next w r)
      else
       (let ident = FromRequest r;
            user = id_User ident;
            (r', params) = Params r res;
            ev = Audited (Emit ident res params);
            st1 = add_audited st
        in if \<not> e_enforce e \<or> \<not> e_store e \<or> \<not> e_engine e \<or> is_admin e user \<or> \<not> enforceable (res_Action res)
           then (st1, [ev, Forwarded r'], w_next w r')
           else if res_Action res = ActionPoolMembership
           then with_denial res ''pool membership changes are not permitted for users'' st1 [ev]
           else case Get (w_store w) user of
             (_, False) \<Rightarrow> with_denial res (''no quota record for '' @ user @ '' (default deny)'') st1 [ev]
           | (qo, True) \<Rightarrow>
               (let (m, l) = locks_get (es_locks st1) user;
                    (st2, evs, resp) = locked_section e w r' res qo params (st1\<lparr>es_locks := l\<rparr>)
                in (st2, ev # Locked m # evs @ [Unlocked m], resp))))"

lemma locked_section_Some [simp]: "locked_section e w r res (Some q) params st = enforce_locked e w r res q params st"
  by (simp add: locked_section_def)

section \<open>The table of mutexes\<close>

text \<open>What serialising by user needs of the table: one mutex per user, kept for ever.\<close>

locale mutex_table =
  fixes acquire :: "'l \<Rightarrow> 'u \<Rightarrow> nat \<times> 'l"
    and known :: "'l \<Rightarrow> 'u \<Rightarrow> nat option"
    and ok :: "'l \<Rightarrow> bool"
  assumes acquire_known: "ok l \<Longrightarrow> known (snd (acquire l u)) u = Some (fst (acquire l u))"
    and acquire_keeps: "ok l \<Longrightarrow> known l v = Some m \<Longrightarrow> known (snd (acquire l u)) v = Some m"
    and known_acquired: "ok l \<Longrightarrow> known l u = Some m \<Longrightarrow> fst (acquire l u) = m"
    and known_inject: "ok l \<Longrightarrow> known l u = Some m \<Longrightarrow> known l v = Some m \<Longrightarrow> u = v"
    and ok_acquire: "ok l \<Longrightarrow> ok (snd (acquire l u))"
begin

definition visit :: "'u list \<Rightarrow> 'l \<Rightarrow> 'l" where
  "visit us l = fold (\<lambda>u l. snd (acquire l u)) us l"

lemma visit_ok: "ok l \<Longrightarrow> ok (visit us l)"
  by (induction us arbitrary: l) (simp_all add: visit_def ok_acquire)

lemma visit_keeps: "ok l \<Longrightarrow> known l v = Some m \<Longrightarrow> known (visit us l) v = Some m"
  by (induction us arbitrary: l) (simp_all add: visit_def ok_acquire acquire_keeps)

text \<open>Two acquisitions, other users in between: the same mutex exactly for the same user.\<close>

lemma acquire_twice:
  assumes "ok l"
  shows "fst (acquire (visit us (snd (acquire l u))) v) = fst (acquire l u) \<longleftrightarrow> v = u"
proof -
  let ?l = "visit us (snd (acquire l u))"
  have ok': "ok ?l" using assms by (simp add: visit_ok ok_acquire)
  have u: "known ?l u = Some (fst (acquire l u))"
    using assms by (simp add: visit_keeps ok_acquire acquire_known)
  have v: "known (snd (acquire ?l v)) v = Some (fst (acquire ?l v))"
    and u': "known (snd (acquire ?l v)) u = Some (fst (acquire l u))"
    using ok' u by (simp_all add: acquire_known acquire_keeps)
  show ?thesis
    using known_inject [OF ok_acquire [OF ok'], of v v] known_inject [OF ok_acquire [OF ok'] v] u u' v
      known_acquired [OF ok' u] by fastforce
qed

end

definition locks_ok :: "locks \<Rightarrow> bool" where
  "locks_ok l = (map_wf l \<and> map snd l = [0..<length l])"

lemma locks_get_known:
  assumes "locks_ok l"
  shows "map_get (snd (locks_get l u)) v =
    (if v = u then Some (fst (locks_get l u)) else map_get l v)"
  using assms by (auto simp: locks_get_def gm.get_put split: option.split)

lemma locks_get_ok:
  assumes "locks_ok l"
  shows "locks_ok (snd (locks_get l u))"
proof (cases "map_get l u")
  case None
  then have "map_put u (length l) l = l @ [(u, length l)]" by (intro map_put_fresh) (simp add: has_key_def)
  with None assms show ?thesis
    by (simp add: locks_get_def locks_ok_def map_wf_def) (simp add: has_key_fst has_key_def flip: has_key_fst)
next
  case (Some m)
  with assms show ?thesis by (simp add: locks_get_def)
qed

lemma locks_inject:
  assumes "locks_ok l" and "map_get l u = Some m" and "map_get l v = Some m"
  shows "u = v"
proof -
  have "distinct (map snd l)" using assms(1) by (simp add: locks_ok_def)
  moreover have "(u, m) \<in> set l" "(v, m) \<in> set l"
    using assms by (simp_all add: locks_ok_def flip: map_get_mem)
  ultimately show ?thesis by (metis eq_key_imp_eq_value distinct_map inj_onD prod.inject snd_conv)
qed

interpretation mx: mutex_table locks_get map_get locks_ok
proof (unfold_locales, goal_cases)
  case (2 l v m u)
  then show ?case by (simp add: locks_get_known) (auto simp: locks_get_def)
next
  case (3 l u m)
  then show ?case by (simp add: locks_get_def)
qed (simp_all add: locks_get_known locks_get_ok locks_inject split: if_splits)

section \<open>One request, one answer\<close>

definition is_outcome :: "event \<Rightarrow> bool" where
  "is_outcome ev = (case ev of Denied _ \<Rightarrow> True | Forwarded _ \<Rightarrow> True | Panicked \<Rightarrow> True | _ \<Rightarrow> False)"

definition same_message :: "request \<Rightarrow> request \<Rightarrow> bool" where
  "same_message r' r =
     (rq_Method r' = rq_Method r \<and> rq_Path r' = rq_Path r \<and> rq_Header r' = rq_Header r \<and> rq_Body r' = rq_Body r)"

lemma same_message_refl [simp]: "same_message r r"
  by (simp add: same_message_def)

lemma Params_same: "same_message (fst (Params r res)) r"
  using readAndRestore_body [of r] readAndRestore_rest [of r]
  by (auto simp: same_message_def Params_cases split: option.split)

lemma forward_and_settle_shape:
  "\<exists>ws. fst (forward_and_settle w r dec) = Forwarded r # ws \<and> filter is_outcome ws = [] \<and>
    (\<forall>ev \<in> set ws. \<exists>n ok. ev = Waited n ok)"
  by (auto simp: forward_and_settle_def Let_def is_outcome_def split: settleKind.split prod.split)

lemma forward_and_settle_response: "snd (forward_and_settle w r dec) = w_next w r"
  by (simp add: forward_and_settle_def Let_def cap.run_out fresh_capture_def)

definition answered :: "world \<Rightarrow> request \<Rightarrow> result \<Rightarrow> event list \<Rightarrow> write_op list \<Rightarrow> bool" where
  "answered w r res evs resp =
     ((\<exists>r'. filter is_outcome evs = [Forwarded r'] \<and> same_message r' r \<and> resp = w_next w r') \<or>
      (\<exists>reason. filter is_outcome evs = [Denied reason] \<and> resp = deny_response res reason))"

lemma enforce_locked_cases:
  assumes "decide (e_failClosed e) (w_target w) (w_usage w) res q params = (dec, fs)"
    and "enforce_locked e w r res q params st = (st', evs, resp)"
  shows "(\<not> dc_allowed dec \<and> evs = [Denied (dc_reason dec)] \<and> resp = deny_response res (dc_reason dec)) \<or>
    (dc_allowed dec \<and> evs = fst (forward_and_settle w r dec) \<and> resp = w_next w r)"
  using assms forward_and_settle_response [of w r dec]
  by (auto simp: enforce_locked_def with_denial_def Let_def split: prod.splits if_splits)

lemma enforce_locked_answered:
  assumes "enforce_locked e w r' res q params st = (st', evs, resp)" and "same_message r' r"
  shows "answered w r res evs resp"
proof -
  obtain dec fs where d: "decide (e_failClosed e) (w_target w) (w_usage w) res q params = (dec, fs)" by fastforce
  from enforce_locked_cases [OF d assms(1)] forward_and_settle_shape [of w r' dec] assms(2)
  show ?thesis by (auto simp: answered_def is_outcome_def)
qed

lemma answered_locked:
  "answered w r res evs resp \<Longrightarrow> answered w r res (Audited l # Locked m # evs @ [Unlocked m']) resp"
  by (simp add: answered_def is_outcome_def)

lemma handleUnknown_answered:
  "handleUnknown e w r res st = (st', evs, resp) \<Longrightarrow> answered w r res evs resp"
  by (auto simp: handleUnknown_def with_denial_def answered_def is_outcome_def Let_def split: if_splits)

text \<open>The part of the middleware after the audit record.\<close>

definition bypasses :: "enforcer \<Rightarrow> request \<Rightarrow> result \<Rightarrow> bool" where
  "bypasses e r res =
     (\<not> e_enforce e \<or> \<not> e_store e \<or> \<not> e_engine e \<or> is_admin e (id_User (FromRequest r)) \<or>
      \<not> enforceable (res_Action res))"

lemma Middleware_relevant:
  fixes e w r st
  defines "res \<equiv> Classify (rq_Method r) (rq_Path r)" and "user \<equiv> id_User (FromRequest r)"
  assumes "res_QuotaRelevant res"
  shows "Middleware e w r st =
    (let (r', params) = Params r res; ev = Audited (Emit (FromRequest r) res params); st1 = add_audited st
     in if bypasses e r res then (st1, [ev, Forwarded r'], w_next w r')
        else if res_Action res = ActionPoolMembership
        then with_denial res ''pool membership changes are not permitted for users'' st1 [ev]
        else case Get (w_store w) user of
          (_, False) \<Rightarrow> with_denial res (''no quota record for '' @ user @ '' (default deny)'') st1 [ev]
        | (qo, True) \<Rightarrow>
            (let (m, l) = locks_get (es_locks st1) user;
                 (st2, evs, resp) = locked_section e w r' res qo params (st1\<lparr>es_locks := l\<rparr>)
             in (st2, ev # Locked m # evs @ [Unlocked m], resp)))"
proof -
  have "quota_endpoint (ToUpper (rq_Method r)) (splitSegs (snd (splitEnvelope (rq_Path r)))) (res_Action res)"
    using assms(3) Classify_quota unfolding res_def by blast
  then have "res_Action res \<noteq> ActionUnknownWrite" by (auto dest: quota_endpoint_action(2))
  then show ?thesis
    using assms(3) unfolding Middleware_def bypasses_def res_def user_def Let_def by simp
qed

text \<open>
  C8. Every request is answered once: either it is forwarded once, with its method, path, headers
  and body as they came, and the client gets exactly what the upstream wrote, or it is denied
  once and the client gets the denial; this holds for every store the loader can produce.
\<close>

theorem Middleware_answers_once:
  assumes "valid_config (s_cfg (w_store w))" and "Middleware e w r st = (st', evs, resp)"
  shows "answered w r (Classify (rq_Method r) (rq_Path r)) evs resp"
proof -
  let ?res = "Classify (rq_Method r) (rq_Path r)"
  let ?user = "id_User (FromRequest r)"
  consider "res_Action ?res = ActionUnknownWrite" | "res_Action ?res \<noteq> ActionUnknownWrite" "\<not> res_QuotaRelevant ?res"
    | "res_QuotaRelevant ?res" by blast
  then show ?thesis
  proof cases
    case 1
    then show ?thesis using assms(2) by (auto simp: Middleware_def intro: handleUnknown_answered)
  next
    case 2
    then show ?thesis using assms(2) by (auto simp: Middleware_def answered_def is_outcome_def)
  next
    case 3
    obtain r' ps where ps: "Params r ?res = (r', ps)" by fastforce
    have same: "same_message r' r" using Params_same [of r ?res] ps by simp
    note run = assms(2) [unfolded Middleware_relevant [OF 3] ps Let_def prod.case]
    consider (bypass) "bypasses e r ?res" | (pool) "\<not> bypasses e r ?res" "res_Action ?res = ActionPoolMembership"
      | (none) "\<not> bypasses e r ?res" "res_Action ?res \<noteq> ActionPoolMembership" "Get (w_store w) ?user = (None, False)"
      | (some) q where "\<not> bypasses e r ?res" "res_Action ?res \<noteq> ActionPoolMembership"
          "Get (w_store w) ?user = (Some q, True)"
      using Get_valid_pointer [OF assms(1), of ?user]
      by (cases "map_get (cf_Users (s_cfg (w_store w))) ?user") (auto simp: Get_def)
    then show ?thesis
    proof cases
      case bypass
      then show ?thesis using run same by (auto simp: answered_def is_outcome_def)
    next
      case pool
      then show ?thesis using run by (auto simp: with_denial_def answered_def is_outcome_def)
    next
      case none
      then show ?thesis using run by (auto simp: with_denial_def answered_def is_outcome_def)
    next
      case some
      then show ?thesis
        using run by (auto split: prod.splits intro!: answered_locked elim!: enforce_locked_answered [OF _ same])
    qed
  qed
qed

theorem Middleware_answers_once_witness:
  "\<exists>st' evs resp. Middleware (New \<lparr>op_hasStore = True, op_hasEngine = True, op_Admins = [], op_Enforce = True,
        op_FailClosed = True, op_DefaultDeny = True\<rparr>)
      \<lparr>w_store = \<lparr>s_cfg = demo_config, s_mtime = 1\<rparr>, w_target = demo_api, w_usage = demo_api, w_polls = [],
        w_next = \<lambda>r. [WriteHeader 200]\<rparr>
      \<lparr>rq_Method = ''POST'', rq_Path = ''/api2/json/pools'', rq_Header = [], rq_Body = None,
        rq_ContentLength = 0, rq_GetBody = None\<rparr> start_state = (st', evs, resp) \<and>
    length (filter is_outcome evs) = 1"
proof -
  let ?e = "New \<lparr>op_hasStore = True, op_hasEngine = True, op_Admins = [], op_Enforce = True,
        op_FailClosed = True, op_DefaultDeny = True\<rparr>"
  let ?w = "\<lparr>w_store = \<lparr>s_cfg = demo_config, s_mtime = 1\<rparr>, w_target = demo_api, w_usage = demo_api, w_polls = [],
        w_next = \<lambda>r. [WriteHeader 200]\<rparr>"
  let ?r = "\<lparr>rq_Method = ''POST'', rq_Path = ''/api2/json/pools'', rq_Header = [], rq_Body = None,
        rq_ContentLength = 0, rq_GetBody = None\<rparr>"
  obtain st' evs resp where run: "Middleware ?e ?w ?r start_state = (st', evs, resp)"
    using prod_cases3 by blast
  have "valid_config demo_config" using demo_valid by (simp add: Validate_None)
  then have "answered ?w ?r (Classify (rq_Method ?r) (rq_Path ?r)) evs resp"
    using Middleware_answers_once [OF _ run] by simp
  then show ?thesis using run by (auto simp: answered_def)
qed

section \<open>What enforcement forwards\<close>

text \<open>An enforcer, a world and requests for the examples.\<close>

definition demo_enforcer :: enforcer where
  "demo_enforcer = New \<lparr>op_hasStore = True, op_hasEngine = True, op_Admins = [''root@pam''], op_Enforce = True,
     op_FailClosed = True, op_DefaultDeny = True\<rparr>"

definition demo_world :: world where
  "demo_world = \<lparr>w_store = \<lparr>s_cfg = demo_config, s_mtime = 1\<rparr>, w_target = demo_api, w_usage = demo_api,
     w_polls = [demo_api], w_next = (\<lambda>r. [WriteHeader 200, Write ''ok''])\<rparr>"

definition demo_request :: "string \<Rightarrow> string \<Rightarrow> request" where
  "demo_request m p = \<lparr>rq_Method = m, rq_Path = p,
     rq_Header = [(''Authorization'', [''PVEAPIToken=x@pve!t=s'']), (''Content-Type'', [''application/x-www-form-urlencoded''])],
     rq_Body = Some \<lparr>b_data = ''cores=4'', b_err = False\<rparr>, rq_ContentLength = 7, rq_GetBody = None\<rparr>"

lemma Middleware_enforced:
  fixes e w r st
  defines "res \<equiv> Classify (rq_Method r) (rq_Path r)" and "user \<equiv> id_User (FromRequest r)"
  assumes "res_QuotaRelevant res" and "\<not> bypasses e r res"
    and "Middleware e w r st = (st', evs, resp)" and "Forwarded r' \<in> set evs"
    and "valid_config (s_cfg (w_store w))"
  obtains q m mid params where "res_Action res \<noteq> ActionPoolMembership" and "Get (w_store w) user = (Some q, True)"
    and "params = snd (Params r res)" and "r' = fst (Params r res)"
    and "m = fst (locks_get (es_locks st) user)"
    and "dc_allowed (fst (decide (e_failClosed e) (w_target w) (w_usage w) res q params))"
    and "evs = Audited (Emit (FromRequest r) res params) # Locked m # mid @ [Unlocked m]"
    and "mid = fst (forward_and_settle w r' (fst (decide (e_failClosed e) (w_target w) (w_usage w) res q params)))"
proof -
  obtain r1 ps where ps: "Params r res = (r1, ps)" by fastforce
  note run = assms(5) [unfolded Middleware_relevant [OF assms(3) [unfolded res_def]],
      folded res_def user_def, unfolded ps Let_def prod.case if_not_P [OF assms(4)]]
  have pm: "res_Action res \<noteq> ActionPoolMembership"
    using run assms(6) by (auto simp: with_denial_def)
  obtain q where q: "Get (w_store w) user = (Some q, True)"
    using run pm assms(6) Get_valid_pointer [OF assms(7), of user]
    by (cases "Get (w_store w) user"; cases "fst (Get (w_store w) user)")
      (auto simp: with_denial_def split: bool.splits)
  obtain m l where l: "locks_get (es_locks st) user = (m, l)" by fastforce
  obtain st2 evs2 resp2 where el: "enforce_locked e w r1 res q ps ((add_audited st)\<lparr>es_locks := l\<rparr>) = (st2, evs2, resp2)"
    using prod_cases3 by blast
  have locks: "es_locks (add_audited st) = es_locks st" by (simp add: add_audited_def)
  have evs: "evs = Audited (Emit (FromRequest r) res ps) # Locked m # evs2 @ [Unlocked m]"
    using run pm by (simp add: q l el locks)
  obtain dec fs where d: "decide (e_failClosed e) (w_target w) (w_usage w) res q ps = (dec, fs)" by fastforce
  have fwd: "Forwarded r' \<in> set evs2" using assms(6) by (simp add: evs)
  with enforce_locked_cases [OF d el] have ok: "dc_allowed dec" "evs2 = fst (forward_and_settle w r1 dec)" by auto
  have "r' = r1" using fwd forward_and_settle_shape [of w r1 dec] by (auto simp: ok(2))
  show thesis
    using that [OF pm q, of ps m evs2] by (simp add: ps l d ok evs \<open>r' = r1\<close>)
qed

text \<open>
  C20. Reads and the writes of the pass-through table are not touched: they are forwarded as they
  are, the client gets what the upstream wrote, nothing is counted, logged or locked.
\<close>

theorem harmless_requests_untouched:
  assumes "read_method (ToUpper (rq_Method r)) \<or>
    passthrough_endpoint (ToUpper (rq_Method r)) (splitSegs (snd (splitEnvelope (rq_Path r)))) \<and>
    (\<nexists>a. quota_endpoint (ToUpper (rq_Method r)) (splitSegs (snd (splitEnvelope (rq_Path r)))) a)"
  shows "Middleware e w r st = (st, [Forwarded r], w_next w r)"
proof -
  let ?res = "Classify (rq_Method r) (rq_Path r)"
  have nq: "\<not> res_QuotaRelevant ?res"
    using assms Classify_quota [of "rq_Method r" "rq_Path r"] quota_endpoint_action(1) by blast
  from Classify_action_cases [OF this] assms have "res_Action ?res \<noteq> ActionUnknownWrite"
    by (auto split: if_splits)
  with nq show ?thesis by (simp add: Middleware_def)
qed

theorem harmless_requests_untouched_witness:
  "Middleware demo_enforcer demo_world (demo_request ''get'' ''/api2/json/nodes'') start_state =
    (start_state, [Forwarded (demo_request ''get'' ''/api2/json/nodes'')], [WriteHeader 200, Write ''ok''])"
proof -
  have "read_method (ToUpper (rq_Method (demo_request ''get'' ''/api2/json/nodes'')))" by code_simp
  then show ?thesis
    using harmless_requests_untouched [of "demo_request ''get'' ''/api2/json/nodes''" demo_enforcer demo_world start_state]
    by (simp add: demo_world_def)
qed

section \<open>Counters\<close>

definition denials :: "event list \<Rightarrow> nat" where
  "denials evs = length (filter (\<lambda>ev. case ev of Denied _ \<Rightarrow> True | _ \<Rightarrow> False) evs)"

text \<open>The writes that were forwarded under a mutex, and the ones that were not but recorded.\<close>

definition admissions :: "event list \<Rightarrow> nat" where
  "admissions evs =
     (if list_ex (\<lambda>ev. case ev of Locked _ \<Rightarrow> True | _ \<Rightarrow> False) evs
      then length (filter (\<lambda>ev. case ev of Forwarded _ \<Rightarrow> True | _ \<Rightarrow> False) evs) else 0)"

definition observed :: "event list \<Rightarrow> nat" where
  "observed evs =
     (if list_ex (\<lambda>ev. case ev of Audited _ \<Rightarrow> True | UnknownForwarded _ \<Rightarrow> True | Denied _ \<Rightarrow> True | _ \<Rightarrow> False) evs
      then 1 else 0)"

lemma count_failures_keeps [simp]:
  "mt_audited (count_failures fc fs m) = mt_audited m" "mt_allowed (count_failures fc fs m) = mt_allowed m"
  "mt_denied (count_failures fc fs m) = mt_denied m"
  unfolding count_failures_def by (induction fs arbitrary: m; simp)+

lemma count_failures_counts:
  "mt_failShut (count_failures fc fs m) = mt_failShut m + (if fc then of_nat (length fs) else 0)"
  "mt_failOpen (count_failures fc fs m) = mt_failOpen m + (if fc then 0 else of_nat (length fs))"
  unfolding count_failures_def by (induction fs arbitrary: m; simp add: ac_simps)+

lemma settle_counts:
  "denials (fst (forward_and_settle w r dec)) = 0"
  "length (filter (\<lambda>ev. case ev of Forwarded _ \<Rightarrow> True | _ \<Rightarrow> False) (fst (forward_and_settle w r dec))) = 1"
  by (auto simp: forward_and_settle_def denials_def Let_def split: settleKind.split prod.split)

lemma enforce_locked_counts:
  assumes "enforce_locked e w r res q params st = (st', evs, resp)"
  shows "mt_denied (es_metrics st') = mt_denied (es_metrics st) + of_nat (denials evs) \<and>
    mt_allowed (es_metrics st') = mt_allowed (es_metrics st) +
      of_nat (length (filter (\<lambda>ev. case ev of Forwarded _ \<Rightarrow> True | _ \<Rightarrow> False) evs)) \<and>
    mt_audited (es_metrics st') = mt_audited (es_metrics st)"
  using assms settle_counts [of w r "fst (decide (e_failClosed e) (w_target w) (w_usage w) res q params)"]
  by (auto simp: enforce_locked_def with_denial_def denials_def Let_def split: prod.splits if_splits)

lemma locked_section_counts:
  assumes "locked_section e w r res qo params st = (st', evs, resp)"
  shows "mt_denied (es_metrics st') = mt_denied (es_metrics st) + of_nat (denials evs) \<and>
    mt_allowed (es_metrics st') = mt_allowed (es_metrics st) +
      of_nat (length (filter (\<lambda>ev. case ev of Forwarded _ \<Rightarrow> True | _ \<Rightarrow> False) evs)) \<and>
    mt_audited (es_metrics st') = mt_audited (es_metrics st)"
  using assms enforce_locked_counts [of e w r res _ params st st' evs resp]
  by (auto simp: locked_section_def denials_def split: option.splits if_splits)

text \<open>A config edit of the demo user that grows nothing, forwarded under the user's mutex.\<close>

lemma demo_forwarded:
  "filter is_outcome (fst (snd (Middleware demo_enforcer demo_world
      (demo_request ''PUT'' ''/api2/json/nodes/n1/qemu/100/config'') start_state))) =
    [Forwarded (fst (Params (demo_request ''PUT'' ''/api2/json/nodes/n1/qemu/100/config'')
      (Classify ''PUT'' ''/api2/json/nodes/n1/qemu/100/config'')))]"
  "\<not> bypasses demo_enforcer (demo_request ''PUT'' ''/api2/json/nodes/n1/qemu/100/config'')
      (Classify ''PUT'' ''/api2/json/nodes/n1/qemu/100/config'')"
  "res_QuotaRelevant (Classify ''PUT'' ''/api2/json/nodes/n1/qemu/100/config'')"
  by code_simp+

lemma denials_append: "denials (xs @ ys) = denials xs + denials ys"
  by (simp add: denials_def)

lemma Middleware_counts:
  assumes "Middleware e w r st = (st', evs, resp)"
  shows "mt_denied (es_metrics st') = mt_denied (es_metrics st) + of_nat (denials evs) \<and>
    mt_allowed (es_metrics st') = mt_allowed (es_metrics st) + of_nat (admissions evs) \<and>
    mt_audited (es_metrics st') = mt_audited (es_metrics st) + of_nat (observed evs)"
proof -
  let ?res = "Classify (rq_Method r) (rq_Path r)"
  consider "res_Action ?res = ActionUnknownWrite" | "res_Action ?res \<noteq> ActionUnknownWrite" "\<not> res_QuotaRelevant ?res"
    | "res_QuotaRelevant ?res" by blast
  then show ?thesis
  proof cases
    case 1
    then show ?thesis
      using assms by (auto simp: Middleware_def handleUnknown_def with_denial_def add_audited_def denials_def
          admissions_def observed_def Let_def split: if_splits)
  next
    case 2
    then show ?thesis using assms by (auto simp: Middleware_def denials_def admissions_def observed_def)
  next
    case 3
    obtain r' ps where ps: "Params r ?res = (r', ps)" by fastforce
    note run = assms [unfolded Middleware_relevant [OF 3] ps Let_def prod.case]
    show ?thesis
    proof (cases "bypasses e r ?res \<or> res_Action ?res = ActionPoolMembership \<or>
        (\<nexists>q. Get (w_store w) (id_User (FromRequest r)) = (q, True))")
      case True
      then show ?thesis
        using run
        by (cases "Get (w_store w) (id_User (FromRequest r))")
          (auto simp: with_denial_def add_audited_def denials_def admissions_def observed_def
            split: if_splits bool.splits)
    next
      case False
      then obtain q where q: "Get (w_store w) (id_User (FromRequest r)) = (q, True)" by blast
      obtain m l where l: "locks_get (es_locks (add_audited st)) (id_User (FromRequest r)) = (m, l)" by fastforce
      obtain st2 evs2 resp2 where el: "locked_section e w r' ?res q ps ((add_audited st)\<lparr>es_locks := l\<rparr>) = (st2, evs2, resp2)"
        using prod_cases3 by blast
      have "st' = st2" "evs = Audited (Emit (FromRequest r) ?res ps) # Locked m # evs2 @ [Unlocked m]"
        using run False by (simp_all add: q l el)
      then show ?thesis
        using locked_section_counts [OF el]
        by (simp add: denials_def admissions_def observed_def add_audited_def)
    qed
  qed
qed

text \<open>A series of requests, one after the other, each in its own world.\<close>

fun serve :: "enforcer \<Rightarrow> (world \<times> request) list \<Rightarrow> estate \<Rightarrow> estate \<times> event list list" where
  "serve e [] st = (st, [])"
| "serve e ((w, r) # ws) st =
     (let (st1, evs, _) = Middleware e w r st; (st2, evss) = serve e ws st1 in (st2, evs # evss))"

lemma serve_counts:
  assumes "serve e ws st = (st', evss)"
  shows "mt_denied (es_metrics st') = mt_denied (es_metrics st) + of_nat (sum_list (map denials evss)) \<and>
    mt_allowed (es_metrics st') = mt_allowed (es_metrics st) + of_nat (sum_list (map admissions evss)) \<and>
    mt_audited (es_metrics st') = mt_audited (es_metrics st) + of_nat (sum_list (map observed evss))"
  using assms
proof (induction ws arbitrary: st st' evss)
  case (Cons p ws)
  obtain w r where p: "p = (w, r)" by fastforce
  obtain st1 evs resp where m: "Middleware e w r st = (st1, evs, resp)" using prod_cases3 by blast
  obtain st2 evs2 where s: "serve e ws st1 = (st2, evs2)" by fastforce
  show ?case
    using Cons.IH [OF s] Cons.prems Middleware_counts [OF m] by (auto simp: p m s ac_simps)
qed simp

text \<open>
  C25. The counters of \<open>/metrics\<close> count what happened: over any series of requests the counter of
  writes grows by the quota-relevant and the unknown writes, \<open>deny\<close> by the denials and \<open>allow\<close> by
  the writes forwarded under a mutex, all modulo 2^64.
\<close>

theorem metrics_count_the_trace:
  assumes "serve e ws start_state = (st', evss)"
  shows "mt_denied (es_metrics st') = of_nat (sum_list (map denials evss)) \<and>
    mt_allowed (es_metrics st') = of_nat (sum_list (map admissions evss)) \<and>
    mt_audited (es_metrics st') = of_nat (sum_list (map observed evss))"
  using serve_counts [OF assms] by (simp add: start_state_def zero_metrics_def)

theorem metrics_count_the_trace_witness:
  "mt_denied (es_metrics (fst (serve demo_enforcer
    [(demo_world, demo_request ''POST'' ''/api2/json/cluster/ha''), (demo_world, demo_request ''POST'' ''/api2/json/pools'')] start_state))) = 2"
proof -
  let ?ws = "[(demo_world, demo_request ''POST'' ''/api2/json/cluster/ha''), (demo_world, demo_request ''POST'' ''/api2/json/pools'')]"
  have "sum_list (map denials (snd (serve demo_enforcer ?ws start_state))) = 2" by code_simp
  then show ?thesis
    using metrics_count_the_trace [of demo_enforcer ?ws "fst (serve demo_enforcer ?ws start_state)"
        "snd (serve demo_enforcer ?ws start_state)"] by simp
qed

section \<open>Waiting\<close>

lemma poll_result:
  "poll seen as = (n, ok) \<Longrightarrow> n \<le> length as \<and> (ok \<longleftrightarrow> list_ex seen as) \<and>
    (if ok then 0 < n \<and> seen (as ! (n - 1)) \<and> \<not> list_ex seen (take (n - 1) as) else n = length as)"
proof (induction as arbitrary: n)
  case (Cons a as)
  show ?case
  proof (cases "seen a")
    case False
    then obtain m where m: "poll seen as = (m, ok)" "n = Suc m" using Cons.prems by (auto split: prod.splits)
    with Cons.IH [OF m(1)] False show ?thesis by (cases m) auto
  qed (use Cons.prems in auto)
qed simp

definition joined :: "string \<Rightarrow> go_int \<Rightarrow> api \<Rightarrow> bool" where
  "joined pool vmid a = (\<exists>ms. PoolMembers a pool = Inr ms \<and> (\<exists>m \<in> set ms. is_guest m \<and> m_VMID m = vmid))"

lemma waitMember_poll: "vmid \<noteq> 0 \<Longrightarrow> waitMember pool vmid polls = poll (joined pool vmid) polls"
proof -
  have "(case PoolMemberSet a pool of Inl _ \<Rightarrow> False | Inr ms \<Rightarrow> map_get ms vmid = Some True) = joined pool vmid a" for a
    using PoolMemberSet_loop [of _ "[]" vmid] by (auto simp: PoolMemberSet_def joined_def split: sum.split)
  then show "vmid \<noteq> 0 \<Longrightarrow> ?thesis" by (simp add: waitMember_def)
qed

text \<open>
  The wait after a create ends with the first poll in which the new guest is a member of the
  pool, errors being polled again; it gives up only when no poll before the deadline saw it, and
  it makes no more polls than the deadline allows. Then the usage of the pool counts the guest.
\<close>

theorem waitMember_first:
  assumes "vmid \<noteq> 0" and "waitMember pool vmid polls = (n, ok)"
  shows "n \<le> length polls \<and> (ok \<longleftrightarrow> list_ex (joined pool vmid) polls) \<and>
    (if ok then 0 < n \<and> joined pool vmid (polls ! (n - 1)) \<and> \<not> list_ex (joined pool vmid) (take (n - 1) polls)
     else n = length polls)"
  using poll_result [OF assms(2) [unfolded waitMember_poll [OF assms(1)]]] .

theorem waitMember_first_witness:
  "snd (waitMember ''uq-x'' 101 [demo_api\<lparr>PoolMembers := (\<lambda>_. Inl (ApiError ''500''))\<rparr>, demo_api]) = True"
proof -
  let ?p = "[demo_api\<lparr>PoolMembers := (\<lambda>_. Inl (ApiError ''500''))\<rparr>, demo_api]"
  have "joined ''uq-x'' 101 demo_api" by (simp add: joined_def demo_api_def is_guest_def)
  then show ?thesis
    using waitMember_first [of 101 "''uq-x''" ?p "fst (waitMember ''uq-x'' 101 ?p)" "snd (waitMember ''uq-x'' 101 ?p)"]
    by simp
qed

text \<open>
  Two configs are taken for the same exactly when they are equal as maps, as long as none of
  the values before the change is empty.
\<close>

theorem sameConfig_exact:
  assumes "map_wf a" and "map_wf b" and "list_all (\<lambda>(_, v). v \<noteq> []) a"
  shows "sameConfig a b \<longleftrightarrow> map_get a = map_get b"
proof
  assume s: "sameConfig a b"
  have ab: "map_get b k = Some v" if "map_get a k = Some v" for k v
  proof -
    have "(k, v) \<in> set a" using that map_get_mem [OF assms(1)] by blast
    then have "str_at b k = v \<and> v \<noteq> []" using s assms(3) by (auto simp: sameConfig_def list_all_iff split: if_splits)
    then show ?thesis by (auto simp: str_at_def split: option.splits)
  qed
  have sub: "set a \<subseteq> set b"
    using ab by (auto simp flip: map_get_mem [OF assms(1)] map_get_mem [OF assms(2)])
  have "card (set a) = length a" "card (set b) = length b"
    using assms(1,2) by (simp_all add: map_wf_def distinct_map distinct_card)
  then have "set a = set b" using s sub by (intro card_subset_eq) (simp_all add: sameConfig_def split: if_splits)
  then have "map_get a k = Some v \<longleftrightarrow> map_get b k = Some v" for k v
    using map_get_mem [OF assms(1)] map_get_mem [OF assms(2)] by simp
  then show "map_get a = map_get b" by (intro ext) (metis option.exhaust)
next
  assume eq: "map_get a = map_get b"
  then have "set a = set b" using map_get_mem [OF assms(1)] map_get_mem [OF assms(2)] by auto
  moreover have "card (set a) = length a" "card (set b) = length b"
    using assms(1,2) by (simp_all add: map_wf_def distinct_map distinct_card)
  ultimately have "length a = length b" by simp
  moreover have "str_at b k = v" if "(k, v) \<in> set a" for k v
    using that map_get_mem [OF assms(1), of k v] by (simp add: eq str_at_def)
  ultimately show "sameConfig a b" by (auto simp: sameConfig_def list_all_iff)
qed

theorem sameConfig_exact_witness:
  "\<not> sameConfig [(''cores'', ''2'')] [(''cores'', ''4'')]"
proof
  assume "sameConfig [(''cores'', ''2'')] [(''cores'', ''4'')]"
  then have "map_get [(''cores'', ''2'')] = map_get [(''cores'', ''4'')]"
    using sameConfig_exact [of "[(''cores'', ''2'')]" "[(''cores'', ''4'')]"] by simp
  from fun_cong [OF this, of "''cores''"] show False by simp
qed

text \<open>An empty value hides a change: the wait goes on until its deadline.\<close>

lemma sameConfig_empty_value: "sameConfig [(''a'', [])] [(''b'', ''x'')]"
  by (simp add: sameConfig_def str_at_def)

section \<open>The gate\<close>

text \<open>
  What a growing write is waited for: the guest it names, and whether an answer of PVE shows the
  change, the new guest as a member of the pool or another config than the decision saw.
\<close>

definition settle_guest :: "result \<Rightarrow> params \<Rightarrow> go_int" where
  "settle_guest res params =
     (if res_Action res = ActionGuestCreate then atoi (str_at params ''vmid'')
      else if res_Action res = ActionClone then atoi (str_at params ''newid'')
      else atoi (res_VMID res))"

definition change_shows :: "api \<Rightarrow> result \<Rightarrow> user_quota \<Rightarrow> params \<Rightarrow> api \<Rightarrow> bool" where
  "change_shows a res q params b =
     (if res_Action res = ActionGuestCreate \<or> res_Action res = ActionClone
      then joined (q_Pool q) (settle_guest res params) b
      else
       (case (GuestConfig a (res_Node res) (res_GuestKind res) (settle_guest res params),
              GuestConfig b (res_Node res) (res_GuestKind res) (settle_guest res params)) of
          (Inr cur, Inr new) \<Rightarrow> \<not> sameConfig cur new
        | _ \<Rightarrow> False))"

text \<open>A request that names no guest, or none that is a number, is not polled for.\<close>

definition wait_event :: "api \<Rightarrow> result \<Rightarrow> user_quota \<Rightarrow> params \<Rightarrow> api list \<Rightarrow> event" where
  "wait_event a res q params polls =
     (case (if settle_guest res params = 0 then (0, False) else poll (change_shows a res q params) polls) of
        (n, ok) \<Rightarrow> Waited n ok)"

lemma waitConfigChanged_poll:
  assumes "GuestConfig a node kind vmid = Inr pre" and "vmid \<noteq> 0"
  shows "waitConfigChanged node kind vmid pre polls =
    poll (\<lambda>b. case (GuestConfig a node kind vmid, GuestConfig b node kind vmid) of
        (Inr cur, Inr new) \<Rightarrow> \<not> sameConfig cur new | _ \<Rightarrow> False) polls"
  using assms(2) by (simp add: waitConfigChanged_def assms(1))

lemma forward_and_settle_waits:
  fixes fc w res q params
  defines "dec \<equiv> fst (decide fc (w_target w) (w_usage w) res q params)"
  assumes "dc_allowed dec"
  shows "fst (forward_and_settle w r dec) =
    Forwarded r #
      (if sc_status (fold statusCapture (w_next w r) fresh_capture) < 300 \<and> growth (w_target w) res params
       then [wait_event (w_target w) res q params (w_polls w)] else [])"
proof (cases "growth (w_target w) res params")
  case False
  then have "dc_settle dec = settleNone" unfolding dec_def by (rule no_growth_no_settle)
  with False show ?thesis by (simp add: forward_and_settle_def Let_def)
next
  case True
  have s: "settles (w_target w) res q params dec"
    using growth_is_settled [OF assms(2) [unfolded dec_def] True] by (simp add: dec_def)
  show ?thesis
  proof (cases "res_Action res = ActionGuestCreate \<or> res_Action res = ActionClone")
    case create: True
    then have "dc_settle dec = settleCreate" "dc_pool dec = q_Pool q" "dc_vmid dec = settle_guest res params"
      using s by (auto simp: settles_def settle_guest_def)
    moreover have "waitMember (q_Pool q) (settle_guest res params) (w_polls w) =
        (if settle_guest res params = 0 then (0, False) else poll (change_shows (w_target w) res q params) (w_polls w))"
    proof -
      have "change_shows (w_target w) res q params = joined (q_Pool q) (settle_guest res params)"
        using create by (simp add: change_shows_def fun_eq_iff)
      then show ?thesis using waitMember_poll by (simp add: waitMember_def [of _ 0])
    qed
    ultimately show ?thesis using True by (simp add: forward_and_settle_def wait_event_def Let_def split: prod.split)
  next
    case False
    let ?g = "settle_guest res params"
    have d: "dc_settle dec = settleGuestMod" "dc_vmid dec = ?g" "dc_node dec = res_Node res" "dc_kind dec = res_GuestKind res"
      and pre: "GuestConfig (w_target w) (res_Node res) (res_GuestKind res) ?g = Inr (dc_preCfg dec)"
      using s False by (auto simp: settles_def settle_guest_def)
    have "waitConfigChanged (res_Node res) (res_GuestKind res) ?g (dc_preCfg dec) (w_polls w) =
        (if ?g = 0 then (0, False) else poll (change_shows (w_target w) res q params) (w_polls w))"
    proof (cases "?g = 0")
      case g: False
      have "change_shows (w_target w) res q params =
          (\<lambda>b. case (GuestConfig (w_target w) (res_Node res) (res_GuestKind res) ?g,
              GuestConfig b (res_Node res) (res_GuestKind res) ?g) of
            (Inr cur, Inr new) \<Rightarrow> \<not> sameConfig cur new | _ \<Rightarrow> False)"
        using False by (auto simp: change_shows_def fun_eq_iff)
      with waitConfigChanged_poll [OF pre g] g show ?thesis by simp
    qed (simp add: waitConfigChanged_def)
    with d True show ?thesis by (simp add: forward_and_settle_def wait_event_def Let_def split: prod.split)
  qed
qed

text \<open>
  C3. An enforced write reaches the upstream only through the gate: it is no pool membership
  edit, its user has a quota, and the policy admits its delta against the usage read under the
  user's mutex. The mutex is held from before the decision until after the write was forwarded and,
  when it grows something the accounting can see and the status recorded of its answer is below
  300, waited for; nothing else happens in between.
\<close>

theorem enforced_forward_gated:
  fixes e w r st
  defines "res \<equiv> Classify (rq_Method r) (rq_Path r)" and "user \<equiv> id_User (FromRequest r)"
    and "params \<equiv> snd (Params r (Classify (rq_Method r) (rq_Path r)))"
    and "m \<equiv> fst (locks_get (es_locks st) (id_User (FromRequest r)))"
  assumes "valid_config (s_cfg (w_store w))" and "res_QuotaRelevant res" and "\<not> bypasses e r res"
    and "Middleware e w r st = (st', evs, resp)" and "Forwarded r' \<in> set evs"
  shows "res_Action res \<noteq> ActionPoolMembership \<and>
    (\<exists>q log. Get (w_store w) user = (Some q, True) \<and>
      admits (e_failClosed e) (request_delta (w_target w) res params) (UserUsage (w_usage w) (q_Pool q)) q (res_Node res) \<and>
      evs = [Audited log, Locked m, Forwarded r'] @
        (if sc_status (fold statusCapture (w_next w r') fresh_capture) < 300 \<and> growth (w_target w) res params
         then [wait_event (w_target w) res q params (w_polls w)] else []) @ [Unlocked m])"
proof -
  obtain q m' mid params' where g: "res_Action res \<noteq> ActionPoolMembership" "Get (w_store w) user = (Some q, True)"
      "params' = snd (Params r res)" "m' = fst (locks_get (es_locks st) user)"
      "dc_allowed (fst (decide (e_failClosed e) (w_target w) (w_usage w) res q params'))"
      "evs = Audited (Emit (FromRequest r) res params') # Locked m' # mid @ [Unlocked m']"
      "mid = fst (forward_and_settle w r' (fst (decide (e_failClosed e) (w_target w) (w_usage w) res q params')))"
    using Middleware_enforced [OF assms(6-9) [unfolded res_def] assms(5)] unfolding res_def user_def by metis
  have p: "params' = params" "m' = m" using g(3,4) by (simp_all add: params_def m_def res_def user_def)
  have "admits (e_failClosed e) (request_delta (w_target w) res params) (UserUsage (w_usage w) (q_Pool q)) q (res_Node res)"
    using g(5) unfolding decide_allowed p .
  with g(1,2) show ?thesis
    unfolding g(6) g(7) p forward_and_settle_waits [OF g(5) [unfolded p]] by auto
qed

theorem enforced_forward_gated_witness:
  "\<exists>log. fst (snd (Middleware demo_enforcer demo_world
      (demo_request ''PUT'' ''/api2/json/nodes/n1/qemu/100/config'') start_state)) =
    [Audited log, Locked 0, Forwarded (fst (Params (demo_request ''PUT'' ''/api2/json/nodes/n1/qemu/100/config'')
      (Classify ''PUT'' ''/api2/json/nodes/n1/qemu/100/config''))), Unlocked 0]"
proof -
  let ?r = "demo_request ''PUT'' ''/api2/json/nodes/n1/qemu/100/config''"
  let ?res = "Classify (rq_Method ?r) (rq_Path ?r)"
  have res: "?res = Classify ''PUT'' ''/api2/json/nodes/n1/qemu/100/config''" by (simp add: demo_request_def)
  obtain st' evs resp where run: "Middleware demo_enforcer demo_world ?r start_state = (st', evs, resp)"
    using prod_cases3 by blast
  have "Forwarded (fst (Params ?r ?res)) \<in> set (filter is_outcome evs)"
    using demo_forwarded(1) run by (simp add: res)
  then have fwd: "Forwarded (fst (Params ?r ?res)) \<in> set evs" by simp
  have v: "valid_config (s_cfg (w_store demo_world))"
    using demo_valid by (simp add: demo_world_def Validate_None)
  have ng: "\<not> growth (w_target demo_world) ?res (snd (Params ?r ?res))" by code_simp
  from enforced_forward_gated [OF v _ _ run fwd] demo_forwarded(2,3) ng
  show ?thesis using run by (auto simp: res start_state_def locks_get_def)
qed

text \<open>
  C19. Growth is waited for: when an admitted write that grows something the accounting can see is
  accepted, the mutex is released only after a wait that ended with the first answer of PVE showing
  the change, errors being asked again, or with the deadline, no answer before it showing it. A
  request that names no guest id is the exception: nothing can be asked for, and it is not waited for.
\<close>

theorem growth_waits:
  fixes e w r st
  defines "res \<equiv> Classify (rq_Method r) (rq_Path r)" and "user \<equiv> id_User (FromRequest r)"
    and "params \<equiv> snd (Params r (Classify (rq_Method r) (rq_Path r)))"
    and "m \<equiv> fst (locks_get (es_locks st) (id_User (FromRequest r)))"
  assumes "valid_config (s_cfg (w_store w))" and "res_QuotaRelevant res" and "\<not> bypasses e r res"
    and "Middleware e w r st = (st', evs, resp)" and "Forwarded r' \<in> set evs"
    and "sc_status (fold statusCapture (w_next w r') fresh_capture) < 300" and "growth (w_target w) res params"
    and "Get (w_store w) user = (Some q, True)"
  shows "\<exists>log n ok. evs = [Audited log, Locked m, Forwarded r', Waited n ok, Unlocked m] \<and>
    (if settle_guest res params = 0 then n = 0 \<and> \<not> ok
     else if ok then 0 < n \<and> n \<le> length (w_polls w) \<and>
       change_shows (w_target w) res q params (w_polls w ! (n - 1)) \<and>
       \<not> list_ex (change_shows (w_target w) res q params) (take (n - 1) (w_polls w))
     else n = length (w_polls w) \<and> \<not> list_ex (change_shows (w_target w) res q params) (w_polls w))"
proof -
  obtain q' m' mid params' where g: "Get (w_store w) user = (Some q', True)"
      "params' = snd (Params r res)" "m' = fst (locks_get (es_locks st) user)"
      "dc_allowed (fst (decide (e_failClosed e) (w_target w) (w_usage w) res q' params'))"
      "evs = Audited (Emit (FromRequest r) res params') # Locked m' # mid @ [Unlocked m']"
      "mid = fst (forward_and_settle w r' (fst (decide (e_failClosed e) (w_target w) (w_usage w) res q' params')))"
    using Middleware_enforced [OF assms(6-9) [unfolded res_def] assms(5)] unfolding res_def user_def by metis
  have p: "params' = params" "m' = m" "q' = q" using g(1-3) assms(12) by (simp_all add: params_def m_def res_def user_def)
  obtain n ok where p2: "(n, ok) = (if settle_guest res params = 0 then (0, False)
      else poll (change_shows (w_target w) res q params) (w_polls w))" by (metis prod.exhaust)
  then have n: "wait_event (w_target w) res q params (w_polls w) = Waited n ok"
    by (simp add: wait_event_def flip: p2)
  have "evs = [Audited (Emit (FromRequest r) res params), Locked m, Forwarded r', Waited n ok, Unlocked m]"
    unfolding g(5) g(6) p forward_and_settle_waits [OF g(4) [unfolded p]] using assms(10,11) n by simp
  moreover have "settle_guest res params \<noteq> 0 \<Longrightarrow> poll (change_shows (w_target w) res q params) (w_polls w) = (n, ok)"
    using p2 by simp
  ultimately show ?thesis
    using p2 poll_result [of "change_shows (w_target w) res q params" "w_polls w" n ok] by (auto split: if_splits)
qed

text \<open>A create of guest 101, which the pool of the demo world shows, behind a failed poll.\<close>

definition polled_world :: world where
  "polled_world = demo_world\<lparr>w_usage := demo_api\<lparr>PoolMembers := (\<lambda>_. Inr [])\<rparr>,
     w_polls := [demo_api\<lparr>PoolMembers := (\<lambda>_. Inl (ApiError ''500''))\<rparr>, demo_api]\<rparr>"

definition create_101 :: request where
  "create_101 = (demo_request ''POST'' ''/api2/json/nodes/n1/lxc'')\<lparr>
     rq_Body := Some \<lparr>b_data = ''cores=1&vmid=101'', b_err = False\<rparr>, rq_ContentLength := 16\<rparr>"

theorem growth_waits_witness:
  "\<exists>log n ok r'. fst (snd (Middleware demo_enforcer polled_world create_101 start_state)) =
     [Audited log, Locked 0, Forwarded r', Waited n ok, Unlocked 0]"
proof -
  let ?res = "Classify (rq_Method create_101) (rq_Path create_101)"
  let ?r' = "fst (Params create_101 ?res)"
  obtain st' evs resp where run: "Middleware demo_enforcer polled_world create_101 start_state = (st', evs, resp)"
    using prod_cases3 by blast
  have "filter is_outcome (fst (snd (Middleware demo_enforcer polled_world create_101 start_state))) = [Forwarded ?r']"
    by code_simp
  then have "Forwarded ?r' \<in> set (filter is_outcome evs)" using run by simp
  then have fwd: "Forwarded ?r' \<in> set evs" by simp
  have v: "valid_config (s_cfg (w_store polled_world))"
    using demo_valid by (simp add: polled_world_def demo_world_def Validate_None)
  have q: "res_QuotaRelevant ?res" "\<not> bypasses demo_enforcer create_101 ?res"
    "sc_status (fold statusCapture (w_next polled_world ?r') fresh_capture) < 300"
    "growth (w_target polled_world) ?res (snd (Params create_101 ?res))"
    "Get (w_store polled_world) (id_User (FromRequest create_101)) = (Some demo_quota, True)"
    by code_simp+
  from growth_waits [OF v q(1,2) run fwd q(3-5)] show ?thesis
    using run by (auto simp: start_state_def locks_get_def)
qed

section \<open>Unknown writes\<close>

text \<open>
  C24. A write in neither table, of the intercepted or of the passed-through endpoints, is answered
  by the policy for unknown writes alone: with enforcement and default-deny, and unless its user is
  an administrator, it is denied, once, with the reason in the client's envelope, and not forwarded;
  else it is forwarded as it is, with a warning. It is counted once and takes no mutex.
\<close>

theorem unknown_writes:
  fixes r
  defines "segs \<equiv> splitSegs (snd (splitEnvelope (rq_Path r)))" and "meth \<equiv> ToUpper (rq_Method r)"
    and "reason \<equiv> ''write endpoint not in the quota allowlist (default-deny)''"
  assumes "\<not> read_method meth" and "\<not> passthrough_endpoint meth segs" and "\<nexists>a. quota_endpoint meth segs a"
    and "Middleware e w r st = (st', evs, resp)"
  shows "(evs, resp) =
      (if e_enforce e \<and> e_defaultDeny e \<and> \<not> is_admin e (id_User (FromRequest r))
       then ([Denied reason], deny_response (Classify (rq_Method r) (rq_Path r)) reason)
       else ([UnknownForwarded (id_User (FromRequest r)), Forwarded r], w_next w r)) \<and>
    mt_audited (es_metrics st') = mt_audited (es_metrics st) + 1 \<and>
    mt_denied (es_metrics st') = mt_denied (es_metrics st) + of_nat (length (filter (\<lambda>ev. ev = Denied reason) evs)) \<and>
    es_locks st' = es_locks st"
proof -
  let ?res = "Classify (rq_Method r) (rq_Path r)"
  have "\<not> res_QuotaRelevant ?res"
    using assms(6) Classify_quota [of "rq_Method r" "rq_Path r"] by (auto simp: segs_def meth_def)
  from Classify_action_cases [OF this] assms(4,5) have "res_Action ?res = ActionUnknownWrite"
    by (simp add: segs_def meth_def)
  then show ?thesis
    using assms(7) unfolding reason_def
    by (auto simp: Middleware_def handleUnknown_def with_denial_def add_audited_def Let_def split: if_splits)
qed

theorem unknown_writes_witness:
  "fst (snd (Middleware demo_enforcer demo_world (demo_request ''POST'' ''/api2/json/cluster/ha'') start_state)) =
    [Denied ''write endpoint not in the quota allowlist (default-deny)'']"
proof -
  let ?r = "demo_request ''POST'' ''/api2/json/cluster/ha''"
  have un: "res_Action (Classify (rq_Method ?r) (rq_Path ?r)) = ActionUnknownWrite" by code_simp
  then have "\<not> res_QuotaRelevant (Classify (rq_Method ?r) (rq_Path ?r))"
    using Classify_quota [of "rq_Method ?r" "rq_Path ?r"] quota_endpoint_action(2) by blast
  note k = Classify_action_cases [OF this, unfolded un]
  have "e_enforce demo_enforcer \<and> e_defaultDeny demo_enforcer \<and> \<not> is_admin demo_enforcer (id_User (FromRequest ?r))"
    by code_simp
  moreover obtain st' evs resp where run: "Middleware demo_enforcer demo_world ?r start_state = (st', evs, resp)"
    using prod_cases3 by blast
  moreover have "\<nexists>a. quota_endpoint (ToUpper (rq_Method ?r)) (splitSegs (snd (splitEnvelope (rq_Path ?r)))) a"
    using \<open>\<not> res_QuotaRelevant (Classify (rq_Method ?r) (rq_Path ?r))\<close> Classify_quota [of "rq_Method ?r" "rq_Path ?r"]
    by blast
  ultimately show ?thesis using unknown_writes [of ?r, OF _ _ _ run] k by (auto split: if_splits)
qed

section \<open>The denial as the client reads it\<close>

lemma marshal_key:
  "marshal_string ''data'' = char_of (34 :: nat) # ''data'' @ [char_of (34 :: nat)]"
  "marshal_string ''message'' = char_of (34 :: nat) # ''message'' @ [char_of (34 :: nat)]"
  "marshal_string ''success'' = char_of (34 :: nat) # ''success'' @ [char_of (34 :: nat)]"
  by code_simp+

lemma deny_body_text:
  "deny_body env reason =
    (let q = char_of (34 :: nat); m = marshal_chars (''uq-proxy quota: '' @ reason) in
     if env = ''extjs'' then
       CHR ''{'' # q # ''data'' @ q # '':null,'' @ q # ''message'' @ q # '':'' @ q # m @ q # '','' @
       q # ''success'' @ q # '':0}'' @ [CHR 0x0A]
     else CHR ''{'' # q # ''data'' @ q # '':null,'' @ q # ''message'' @ q # '':'' @ q # m @ q # ''}'' @ [CHR 0x0A])"
proof -
  have zero: "Marshal (JNum ''0'') = ''0''" by code_simp
  have s3: "sort_members [(''success'', a), (''message'', b), (''data'', c)] = [(''data'', c), (''message'', b), (''success'', a)]"
    for a b c :: string
    by (simp add: sort_members_def)
  have s2: "sort_members [(''data'', a), (''message'', b)] = [(''data'', a), (''message'', b)]"
    for a b :: string
    by (simp add: sort_members_def)
  show ?thesis
    by (simp add: deny_body_def line_def Let_def s2 s3 zero marshal_key del: Marshal.simps(3)) (simp add: marshal_string_def)
qed


lemma quote_facts:
  "skip (char_of (34 :: nat) # t) = char_of (34 :: nat) # t" "char_of (34 :: nat) \<noteq> CHR ''{''"
  "char_of (34 :: nat) \<noteq> CHR ''[''" "char_of (34 :: nat) \<noteq> CHR ''}''"
proof -
  have "\<not> json_space (char_of (34 :: nat))" by code_simp
  then show "skip (char_of (34 :: nat) # t) = char_of (34 :: nat) # t" by (simp add: skip_def)
  show "char_of (34 :: nat) \<noteq> CHR ''{''" "char_of (34 :: nat) \<noteq> CHR ''[''" "char_of (34 :: nat) \<noteq> CHR ''}''" by code_simp+
qed

lemma skip_mark: "skip (CHR '':'' # t) = CHR '':'' # t" "skip (CHR '','' # t) = CHR '','' # t"
    "skip (CHR ''}'' # t) = CHR ''}'' # t" "skip (CHR ''{'' # t) = CHR ''{'' # t" "skip (CHR ''n'' # t) = CHR ''n'' # t"
  by (simp_all add: skip_def json_space_def)

lemma json_key:
  "json_string (CHR ''d'' # CHR ''a'' # CHR ''t'' # CHR ''a'' # char_of (34 :: nat) # t) = Some (''data'', t)"
  "json_string (CHR ''m'' # CHR ''e'' # CHR ''s'' # CHR ''s'' # CHR ''a'' # CHR ''g'' # CHR ''e'' # char_of (34 :: nat) # t) =
    Some (''message'', t)"
  "json_string (CHR ''s'' # CHR ''u'' # CHR ''c'' # CHR ''c'' # CHR ''e'' # CHR ''s'' # CHR ''s'' # char_of (34 :: nat) # t) =
    Some (''success'', t)"
proof -
  have k: "marshal_chars ''data'' = ''data''" "marshal_chars ''message'' = ''message''" "marshal_chars ''success'' = ''success''"
    "valid_utf8 ''data'' = ''data''" "valid_utf8 ''message'' = ''message''" "valid_utf8 ''success'' = ''success''" by code_simp+
  show "json_string (CHR ''d'' # CHR ''a'' # CHR ''t'' # CHR ''a'' # char_of (34 :: nat) # t) = Some (''data'', t)"
    using json_string_marshal [of "''data''" t] unfolding k by (simp del: json_string.simps)
  show "json_string (CHR ''m'' # CHR ''e'' # CHR ''s'' # CHR ''s'' # CHR ''a'' # CHR ''g'' # CHR ''e'' # char_of (34 :: nat) # t) =
    Some (''message'', t)"
    using json_string_marshal [of "''message''" t] unfolding k by (simp del: json_string.simps)
  show "json_string (CHR ''s'' # CHR ''u'' # CHR ''c'' # CHR ''c'' # CHR ''e'' # CHR ''s'' # CHR ''s'' # char_of (34 :: nat) # t) =
    Some (''success'', t)"
    using json_string_marshal [of "''success''" t] unfolding k by (simp del: json_string.simps)
qed

lemma value_null: "json_value (Suc n) d (CHR ''n'' # CHR ''u'' # CHR ''l'' # CHR ''l'' # t) = Some (JNull, t)"
proof -
  have "CHR ''n'' \<noteq> char_of (34 :: nat)" by code_simp
  then show ?thesis by (simp add: skip_mark)
qed

lemma value_string: "json_value (Suc n) d (char_of (34 :: nat) # marshal_chars s @ char_of (34 :: nat) # t) = Some (JStr (valid_utf8 s), t)"
  by (simp add: quote_facts json_string_marshal del: json_string.simps)

lemma value_zero: "json_value (Suc n) d (CHR ''0'' # CHR ''}'' # t) = Some (JNum ''0'', CHR ''}'' # t)"
proof -
  have "CHR ''0'' \<noteq> char_of (34 :: nat)" by code_simp
  then show ?thesis by (simp add: skip_def json_space_def json_number_def)
qed

lemma members_more:
  assumes "json_string t = Some (k, CHR '':'' # u)" and "json_value n d u = Some (x, CHR '','' # w)"
    and "json_members n d w = Some (ms, z)"
  shows "json_members (Suc n) d (char_of (34 :: nat) # t) = Some ((k, x) # ms, z)"
  using assms by (simp add: quote_facts skip_mark del: json_string.simps)

lemma members_last:
  assumes "json_string t = Some (k, CHR '':'' # u)" and "json_value n d u = Some (x, CHR ''}'' # w)"
  shows "json_members (Suc n) d (char_of (34 :: nat) # t) = Some ([(k, x)], w)"
  using assms by (simp add: quote_facts skip_mark del: json_string.simps)

lemma value_object:
  assumes "json_members n (Suc d) (char_of (34 :: nat) # t) = Some (ms, r)" and "d < max_depth"
  shows "json_value (Suc n) d (CHR ''{'' # char_of (34 :: nat) # t) = Some (JObj ms, r)"
  using assms by (simp add: skip_mark quote_facts)


definition deny_members :: "string \<Rightarrow> string \<Rightarrow> (string \<times> json) list" where
  "deny_members env reason =
     [(''data'', JNull), (''message'', JStr (valid_utf8 (''uq-proxy quota: '' @ reason)))] @
     (if env = ''extjs'' then [(''success'', JNum ''0'')] else [])"

lemma deny_body_parse: "json_parse (deny_body env reason) = Some (JObj (deny_members env reason))"
proof -
  define m where "m = ''uq-proxy quota: '' @ reason"
  have body: "deny_body env reason =
    (if env = ''extjs'' then
       CHR ''{'' # char_of (34 :: nat) # ''data'' @ char_of (34 :: nat) # CHR '':'' # ''null'' @ CHR '','' #
       char_of (34 :: nat) # ''message'' @ char_of (34 :: nat) # CHR '':'' # char_of (34 :: nat) # marshal_chars m @
       char_of (34 :: nat) # CHR '','' # char_of (34 :: nat) # ''success'' @ char_of (34 :: nat) # '':0}'' @ [CHR 0x0A]
     else CHR ''{'' # char_of (34 :: nat) # ''data'' @ char_of (34 :: nat) # CHR '':'' # ''null'' @ CHR '','' #
       char_of (34 :: nat) # ''message'' @ char_of (34 :: nat) # CHR '':'' # char_of (34 :: nat) # marshal_chars m @
       char_of (34 :: nat) # CHR ''}'' # [CHR 0x0A])"
    unfolding deny_body_text Let_def m_def by simp
  have members: "deny_members env reason =
     [(''data'', JNull), (''message'', JStr (valid_utf8 m))] @ (if env = ''extjs'' then [(''success'', JNum ''0'')] else [])"
    unfolding deny_members_def m_def ..
  have depth: "0 < max_depth" by (simp add: max_depth_def)
  have nl: "skip [CHR 0x0A] = []" by (simp add: skip_def json_space_def)
  have "json_value (Suc (Suc (Suc (Suc (Suc 0))))) 0 (deny_body env reason) = Some (JObj (deny_members env reason), [CHR 0x0A])"
  proof (cases "env = ''extjs''")
    case True
    have "json_members (Suc (Suc 0)) (Suc 0) (char_of (34 :: nat) # ''success'' @ char_of (34 :: nat) # '':0}'' @ [CHR 0x0A]) =
        Some ([(''success'', JNum ''0'')], [CHR 0x0A])"
      using members_last [OF json_key(3), where n = "(Suc 0)" and d = "Suc 0"] value_zero [where n = "0" and d = "Suc 0"]
      by (simp del: json_members.simps json_value.simps)
    then have "json_members (Suc (Suc (Suc 0))) (Suc 0) (char_of (34 :: nat) # ''message'' @ char_of (34 :: nat) # CHR '':'' # char_of (34 :: nat) #
          marshal_chars m @ char_of (34 :: nat) # CHR '','' # char_of (34 :: nat) # ''success'' @ char_of (34 :: nat) # '':0}'' @ [CHR 0x0A]) =
        Some ([(''message'', JStr (valid_utf8 m)), (''success'', JNum ''0'')], [CHR 0x0A])"
      using members_more [OF json_key(2), where n = "(Suc (Suc 0))" and d = "Suc 0"] value_string [where n = "(Suc 0)" and d = "Suc 0" and s = m] by (simp del: json_members.simps json_value.simps)
    then have "json_members (Suc (Suc (Suc (Suc 0)))) (Suc 0) (char_of (34 :: nat) # ''data'' @ char_of (34 :: nat) # CHR '':'' # ''null'' @ CHR '','' #
          char_of (34 :: nat) # ''message'' @ char_of (34 :: nat) # CHR '':'' # char_of (34 :: nat) #
          marshal_chars m @ char_of (34 :: nat) # CHR '','' # char_of (34 :: nat) # ''success'' @ char_of (34 :: nat) # '':0}'' @ [CHR 0x0A]) =
        Some ([(''data'', JNull), (''message'', JStr (valid_utf8 m)), (''success'', JNum ''0'')], [CHR 0x0A])"
      using members_more [OF json_key(1), where n = "(Suc (Suc (Suc 0)))" and d = "Suc 0"] value_null [where n = "(Suc (Suc 0))" and d = "Suc 0"] by (simp del: json_members.simps json_value.simps)
    from value_object [OF this depth] show ?thesis
      unfolding body members using True by (simp del: json_members.simps json_value.simps valid_utf8.simps)
  next
    case False
    have "json_members (Suc (Suc (Suc 0))) (Suc 0) (char_of (34 :: nat) # ''message'' @ char_of (34 :: nat) # CHR '':'' # char_of (34 :: nat) #
          marshal_chars m @ char_of (34 :: nat) # CHR ''}'' # [CHR 0x0A]) =
        Some ([(''message'', JStr (valid_utf8 m))], [CHR 0x0A])"
      using members_last [OF json_key(2), where n = "(Suc (Suc 0))" and d = "Suc 0"] value_string [where n = "(Suc 0)" and d = "Suc 0" and s = m] by (simp del: json_members.simps json_value.simps)
    then have "json_members (Suc (Suc (Suc (Suc 0)))) (Suc 0) (char_of (34 :: nat) # ''data'' @ char_of (34 :: nat) # CHR '':'' # ''null'' @ CHR '','' #
          char_of (34 :: nat) # ''message'' @ char_of (34 :: nat) # CHR '':'' # char_of (34 :: nat) #
          marshal_chars m @ char_of (34 :: nat) # CHR ''}'' # [CHR 0x0A]) =
        Some ([(''data'', JNull), (''message'', JStr (valid_utf8 m))], [CHR 0x0A])"
      using members_more [OF json_key(1), where n = "(Suc (Suc (Suc 0)))" and d = "Suc 0"] value_null [where n = "(Suc (Suc 0))" and d = "Suc 0"] by (simp del: json_members.simps json_value.simps)
    from value_object [OF this depth] show ?thesis
      unfolding body members using False by (simp del: json_members.simps json_value.simps valid_utf8.simps)
  qed
  with nl show ?thesis unfolding json_parse_iff by blast
qed

text \<open>
  C23. The client can read why it was denied: the body of a denial, in either envelope, is a JSON
  text that decodes to the message with the reason, bytes of it that are no UTF-8 replaced, and
  for ExtJS to a success of 0.
\<close>

theorem deny_body_readable:
  "case unmarshal_map (deny_body env reason) of
     None \<Rightarrow> False
   | Some m \<Rightarrow>
       map_get m ''message'' = Some (JStr (valid_utf8 (''uq-proxy quota: '' @ reason))) \<and>
       map_get m ''data'' = Some JNull \<and>
       map_get m ''success'' = (if env = ''extjs'' then Some (JNum ''0'') else None)"
proof -
  have zero: "ParseFloat ''0'' \<noteq> None" by code_simp
  show ?thesis
    using zero by (simp add: unmarshal_map_def deny_body_parse deny_members_def del: valid_utf8.simps)
qed

section \<open>The waits return\<close>

text \<open>
  The loop of \<open>waitMember\<close> and \<open>waitConfigChanged\<close> with its clock, in milliseconds: \<open>now i\<close> is the time
  at the \<open>i\<close>-th look at the clock, \<open>answers i\<close> what PVE then says. The result is the iteration the
  loop returns in; \<open>None\<close> would be a loop that never returns.
\<close>

partial_function (option) wait_loop ::
    "(nat \<Rightarrow> int) \<Rightarrow> int \<Rightarrow> (api \<Rightarrow> bool) \<Rightarrow> (nat \<Rightarrow> api) \<Rightarrow> nat \<Rightarrow> nat option" where
  "wait_loop now deadline seen answers i =
     (if now i < deadline then
        (if seen (answers i) then Some i else wait_loop now deadline seen answers (Suc i))
      else Some i)"

definition settleTimeout :: int where
  "settleTimeout = 10 * 1000"

definition timed_wait :: "(nat \<Rightarrow> int) \<Rightarrow> int \<Rightarrow> (api \<Rightarrow> bool) \<Rightarrow> (nat \<Rightarrow> api) \<Rightarrow> nat option" where
  "timed_wait now start seen answers = wait_loop now (start + settleTimeout) seen answers 0"

lemma wait_loop_poll:
  assumes "i \<le> N" and "\<And>j. j < N \<Longrightarrow> now j < deadline" and "deadline \<le> now N"
  shows "wait_loop now deadline seen answers i =
    Some (let (n, ok) = poll seen (map answers [i..<N]) in if ok then i + n - 1 else i + n)"
  using assms(1)
proof (induction "N - i" arbitrary: i)
  case 0
  then show ?case using assms(3) by (subst wait_loop.simps) simp
next
  case (Suc k)
  then have i: "i < N" "[i..<N] = i # [Suc i..<N]" by (simp_all add: upt_conv_Cons)
  show ?case
  proof (cases "seen (answers i)")
    case True
    then show ?thesis using assms(2) i by (subst wait_loop.simps) simp
  next
    case False
    have "wait_loop now deadline seen answers i = wait_loop now deadline seen answers (Suc i)"
      using assms(2) [OF i(1)] False by (subst wait_loop.simps) simp
    also have "\<dots> = Some (let (n, ok) = poll seen (map answers [Suc i..<N]) in if ok then Suc i + n - 1 else Suc i + n)"
      using Suc i by simp
    finally show ?thesis using False i by (simp add: Let_def split: prod.split)
  qed
qed

lemma clock_grows: "(\<And>i. now i + 250 \<le> now (Suc i)) \<Longrightarrow> now 0 + 250 * int i \<le> (now i :: int)"
proof (induction i)
  case (Suc i)
  from Suc.IH [OF Suc.prems] Suc.prems [of i] show ?case by simp
qed simp

text \<open>
  C14. The mutex is never held for ever: as every round sleeps for a quarter of a second, a wait
  asks PVE at most 40 times and returns, whatever PVE answers, with the result of polling that
  many answers.
\<close>

theorem waits_return:
  assumes "start \<le> now 0" and "\<And>i. now i + 250 \<le> now (Suc i)"
  shows "\<exists>N \<le> 40. timed_wait now start seen answers =
    Some (let (n, ok) = poll seen (map answers [0..<N]) in if ok then n - 1 else n)"
proof -
  define late where "late = (\<lambda>i. start + settleTimeout \<le> now i)"
  have "late 40" using clock_grows [of now 40, OF assms(2)] assms(1) by (simp add: late_def settleTimeout_def)
  then have N: "late (LEAST i. late i)" "(LEAST i. late i) \<le> 40" by (rule LeastI, rule Least_le)
  have "\<not> late j" if "j < (LEAST i. late i)" for j using that by (rule not_less_Least)
  then have "timed_wait now start seen answers =
      Some (let (n, ok) = poll seen (map answers [0..<LEAST i. late i]) in if ok then n - 1 else n)"
    using wait_loop_poll [of 0 "LEAST i. late i" now "start + settleTimeout" seen answers] N(1)
    by (simp add: timed_wait_def late_def not_le split: prod.splits)
  with N(2) show ?thesis by blast
qed

theorem waits_return_witness: "timed_wait (\<lambda>i. 300 * int i) 0 (\<lambda>_. False) (\<lambda>_. demo_api) \<noteq> None"
  using waits_return [of 0 "\<lambda>i. 300 * int i" "\<lambda>_. False" "\<lambda>_. demo_api"] by auto

end
