(* ===== verification/Serial.thy ===== *)
theory Serial imports Enforcer begin

text \<open>
  Concurrent writes: the doc comment of \<open>internal/admission/admission.go\<close> promises that the
  per-user mutex, held across decision, forwarding and settling, keeps a flood of requests of
  one user from overshooting. Requests are threads; PVE applies what was forwarded by
  asynchronous tasks, of whose effects nothing is assumed. One step is one action of a thread
  between two points where others may run, or a change of what a pool uses. The decisions are those of \<open>decide\<close> with fail-closed, the
  mutexes those of \<open>locks_get\<close>.
\<close>

section \<open>Loads\<close>

datatype dim = DCores | DMemory | DInstances | DDisk string

type_synonym load = "dim \<Rightarrow> int"

fun usage_load :: "usage \<Rightarrow> load" where
  "usage_load u DCores = sint (u_Cores u)"
| "usage_load u DMemory = sint (u_MemoryMiB u)"
| "usage_load u DInstances = sint (u_Instances u)"
| "usage_load u (DDisk st) = sint (int_at (u_DiskBytes u) st)"

fun delta_load :: "delta \<Rightarrow> load" where
  "delta_load d DCores = sint (d_Cores d)"
| "delta_load d DMemory = sint (d_MemoryMiB d)"
| "delta_load d DInstances = sint (d_Instances d)"
| "delta_load d (DDisk st) = sint (int_at (d_DiskBytes d) st)"

text \<open>The limit that applies on a node; a storage without one allows nothing.\<close>

fun limit_load :: "user_quota \<Rightarrow> string \<Rightarrow> load" where
  "limit_load q node DCores = sint (fst (effectiveLimits q node))"
| "limit_load q node DMemory = sint (fst (snd (effectiveLimits q node)))"
| "limit_load q node DInstances = sint (fst (snd (snd (effectiveLimits q node))))"
| "limit_load q node (DDisk st) =
     (case map_get (snd (snd (snd (effectiveLimits q node)))) st of None \<Rightarrow> 0 | Some lim \<Rightarrow> sint lim * 2 ^ 30)"


section \<open>Threads\<close>

record job =
  j_user :: string
  j_quota :: user_quota
  j_res :: result
  j_params :: params

text \<open>
  The points of a request: waiting for its mutex, inside the critical section before the
  decision, admitted, forwarded with its task pending or landed, done; or given up at the
  settle timeout with the task pending.
\<close>

datatype phase =
    Arrived job
  | Queued nat job
  | Deciding nat job
  | Granted nat job delta
  | InFlight nat job delta bool
  | TimedOut job delta
  | Finished

text \<open>
  The load of a pool is what the accounting reads there. \<open>sy_excess\<close> is a ghost: what PVE has added
  to a pool beyond the deltas charged.
\<close>

record sys =
  sy_table :: locks
  sy_owner :: "nat \<Rightarrow> nat option"
  sy_phase :: "nat \<Rightarrow> phase"
  sy_load :: "string \<Rightarrow> load"
  sy_excess :: "string \<Rightarrow> load"

definition plus_load :: "load \<Rightarrow> load \<Rightarrow> load" where
  "plus_load l d = (\<lambda>k. l k + d k)"

definition set_phase :: "nat \<Rightarrow> phase \<Rightarrow> sys \<Rightarrow> sys" where
  "set_phase t ph s = s\<lparr>sy_phase := (sy_phase s)(t := ph)\<rparr>"

definition unlock :: "nat \<Rightarrow> sys \<Rightarrow> sys" where
  "unlock m s = s\<lparr>sy_owner := (sy_owner s)(m := None)\<rparr>"

text \<open>PVE changes the load of a pool by \<open>e\<close>, of which at most the growing part of \<open>d\<close> was charged.\<close>

definition land_load :: "string \<Rightarrow> load \<Rightarrow> load \<Rightarrow> sys \<Rightarrow> sys" where
  "land_load p d e s =
     s\<lparr>sy_load := (sy_load s)(p := plus_load (sy_load s p) e),
       sy_excess := (sy_excess s)(p := plus_load (sy_excess s p) (\<lambda>k. max 0 (e k - max 0 (d k))))\<rparr>"

definition j_pool :: "job \<Rightarrow> string" where
  "j_pool j = q_Pool (j_quota j)"

text \<open>
  A decision on PVE answers \<open>a\<close> and \<open>b\<close>: the usage it may read is the load of the pool, and no
  sum wraps around.
\<close>

definition grants :: "api \<Rightarrow> api \<Rightarrow> job \<Rightarrow> load \<Rightarrow> delta \<Rightarrow> bool" where
  "grants a b j l d =
     (res_Action (j_res j) \<noteq> ActionStorageAlloc \<and>
      dc_allowed (fst (decide True a b (j_res j) (j_quota j) (j_params j))) \<and>
      request_delta a (j_res j) (j_params j) = Inr d \<and>
      (\<forall>u. UserUsage b (j_pool j) = Inr u \<longrightarrow> usage_load u = l \<and> no_wrap u d))"

text \<open>
  The steps. What the task of a forwarded write adds to the pool is any load \<open>e\<close>: nothing is assumed
  of PVE, and what it adds beyond the charged delta goes to the ghost. \<open>outside\<close> is everything else
  that changes what a pool uses: deletions, administrators, writes that are not enforced, and the
  late effects of writes that are not waited for, which are those that grow nothing and raw volumes.
  \<open>timeouts\<close> says whether a thread may stop waiting before its task has landed: at the settle
  timeout, on an answer that shows only a part of the change, or at once when the request names no
  guest id. \<open>refused\<close> is an answer of 300 or above.
\<close>

inductive step :: "store \<Rightarrow> bool \<Rightarrow> sys \<Rightarrow> sys \<Rightarrow> bool" for st timeouts where
  arrive: "sy_phase s t = Finished \<Longrightarrow> Get st (j_user j) = (Some (j_quota j), True) \<Longrightarrow>
    step st timeouts s (set_phase t (Arrived j) s)"
| queue: "sy_phase s t = Arrived j \<Longrightarrow> locks_get (sy_table s) (j_user j) = (m, l) \<Longrightarrow>
    step st timeouts s (set_phase t (Queued m j) (s\<lparr>sy_table := l\<rparr>))"
| lock: "sy_phase s t = Queued m j \<Longrightarrow> sy_owner s m = None \<Longrightarrow>
    step st timeouts s (set_phase t (Deciding m j) (s\<lparr>sy_owner := (sy_owner s)(m := Some t)\<rparr>))"
| deny: "sy_phase s t = Deciding m j \<Longrightarrow>
    \<not> dc_allowed (fst (decide True a b (j_res j) (j_quota j) (j_params j))) \<Longrightarrow>
    step st timeouts s (set_phase t Finished (unlock m s))"
| alloc: "sy_phase s t = Deciding m j \<Longrightarrow> res_Action (j_res j) = ActionStorageAlloc \<Longrightarrow>
    dc_allowed (fst (decide True a b (j_res j) (j_quota j) (j_params j))) \<Longrightarrow>
    step st timeouts s (set_phase t Finished (unlock m s))"
| grant: "sy_phase s t = Deciding m j \<Longrightarrow> grants a b j (sy_load s (j_pool j)) d \<Longrightarrow>
    step st timeouts s (set_phase t (Granted m j d) s)"
| refused: "sy_phase s t = Granted m j d \<Longrightarrow> step st timeouts s (set_phase t Finished (unlock m s))"
| no_growth: "sy_phase s t = Granted m j d \<Longrightarrow> \<not> positive d \<Longrightarrow>
    step st timeouts s (set_phase t Finished (unlock m s))"
| forward: "sy_phase s t = Granted m j d \<Longrightarrow> positive d \<Longrightarrow>
    step st timeouts s (set_phase t (InFlight m j d False) s)"
| land: "sy_phase s t = InFlight m j d False \<Longrightarrow>
    step st timeouts s (set_phase t (InFlight m j d True) (land_load (j_pool j) (delta_load d) e s))"
| settle: "sy_phase s t = InFlight m j d True \<Longrightarrow> step st timeouts s (set_phase t Finished (unlock m s))"
| give_up: "timeouts \<Longrightarrow> sy_phase s t = InFlight m j d False \<Longrightarrow>
    step st timeouts s (set_phase t (TimedOut j d) (unlock m s))"
| land_late: "sy_phase s t = TimedOut j d \<Longrightarrow>
    step st timeouts s (set_phase t Finished (land_load (j_pool j) (delta_load d) e s))"
| outside: "step st timeouts s (land_load p (\<lambda>_. 0) e s)"

definition start_sys :: "(string \<Rightarrow> load) \<Rightarrow> sys" where
  "start_sys l = \<lparr>sy_table = [], sy_owner = (\<lambda>_. None), sy_phase = (\<lambda>_. Finished), sy_load = l,
     sy_excess = (\<lambda>_ _. 0)\<rparr>"

section \<open>The invariant\<close>

fun holds :: "phase \<Rightarrow> (nat \<times> job) option" where
  "holds (Deciding m j) = Some (m, j)"
| "holds (Granted m j d) = Some (m, j)"
| "holds (InFlight m j d b) = Some (m, j)"
| "holds _ = None"

fun knows :: "phase \<Rightarrow> (nat \<times> job) option" where
  "knows (Queued m j) = Some (m, j)"
| "knows ph = holds ph"

fun job_of :: "phase \<Rightarrow> job option" where
  "job_of (Arrived j) = Some j"
| "job_of (TimedOut j d) = Some j"
| "job_of ph = map_option snd (knows ph)"


definition excluded :: "store \<Rightarrow> sys \<Rightarrow> bool" where
  "excluded st s =
     (locks_ok (sy_table s) \<and>
      (\<forall>t m j. knows (sy_phase s t) = Some (m, j) \<longrightarrow> map_get (sy_table s) (j_user j) = Some m) \<and>
      (\<forall>t m j. holds (sy_phase s t) = Some (m, j) \<longrightarrow> sy_owner s m = Some t) \<and>
      (\<forall>t j. job_of (sy_phase s t) = Some j \<longrightarrow> Get st (j_user j) = (Some (j_quota j), True)))"



lemma set_phase_simps [simp]:
  "sy_table (set_phase t ph s) = sy_table s" "sy_owner (set_phase t ph s) = sy_owner s"
  "sy_phase (set_phase t ph s) = (sy_phase s)(t := ph)" "sy_load (set_phase t ph s) = sy_load s"
  "sy_table (unlock m s) = sy_table s" "sy_owner (unlock m s) = (sy_owner s)(m := None)"
  "sy_phase (unlock m s) = sy_phase s" "sy_load (unlock m s) = sy_load s"
  "sy_table (land_load p d e s) = sy_table s" "sy_owner (land_load p d e s) = sy_owner s"
  "sy_phase (land_load p d e s) = sy_phase s" "sy_load (land_load p d e s) = (sy_load s)(p := plus_load (sy_load s p) e)"
  "sy_excess (set_phase t ph s) = sy_excess s" "sy_excess (unlock m s) = sy_excess s"
  "sy_excess (land_load p d e s) = (sy_excess s)(p := plus_load (sy_excess s p) (\<lambda>k. max 0 (e k - max 0 (d k))))"
  by (simp_all add: set_phase_def unlock_def land_load_def)

lemma holds_knows: "holds ph = Some x \<Longrightarrow> knows ph = Some x"
  by (cases ph) auto

lemma excludedD:
  assumes "excluded st s"
  shows "locks_ok (sy_table s)"
    and "knows (sy_phase s t) = Some (m, j) \<Longrightarrow> map_get (sy_table s) (j_user j) = Some m"
    and "holds (sy_phase s t) = Some (m, j) \<Longrightarrow> sy_owner s m = Some t"
    and "job_of (sy_phase s t) = Some j \<Longrightarrow> Get st (j_user j) = (Some (j_quota j), True)"
  using assms by (auto simp: excluded_def)

text \<open>A thread leaves its critical section: its mutex is nobody else's.\<close>

lemma excluded_leave:
  assumes "excluded st s" and "holds (sy_phase s t) = Some (m, j)" and "holds ph = None" and "knows ph = None"
    and "job_of ph = None \<or> job_of ph = Some j"
  shows "excluded st (set_phase t ph (unlock m s))"
proof -
  have "sy_owner s m = Some t" using assms(1,2) by (rule excludedD(3))
  moreover have "job_of (sy_phase s t) = Some j" using assms(2) by (cases "sy_phase s t") auto
  then have "Get st (j_user j) = (Some (j_quota j), True)" using assms(1) by (intro excludedD(4))
  moreover have other: "ta = t" if "holds (sy_phase s ta) = Some (m, ja)" for ta ja
    using excludedD(3) [OF assms(1) that] \<open>sy_owner s m = Some t\<close> by simp
  ultimately show ?thesis
    unfolding excluded_def
  proof (intro conjI allI impI, goal_cases)
    case 1
    then show ?case using excludedD(1) [OF assms(1)] by simp
  next
    case (2 ta ma ja)
    then show ?case using excludedD(2) [OF assms(1), of ta ma ja] assms(4) by (simp split: if_splits)
  next
    case (3 ta ma ja)
    then show ?case using excludedD(3) [OF assms(1), of ta ma ja] other assms(3) by (auto split: if_splits)
  next
    case (4 ta ja)
    then show ?case using excludedD(4) [OF assms(1), of ta ja] assms(5) by (auto split: if_splits)
  qed
qed

text \<open>A thread stays where it is with regard to its mutex.\<close>

lemma excluded_stay:
  assumes "excluded st s" and "knows ph = knows (sy_phase s t)" and "holds ph = holds (sy_phase s t)"
    and "job_of ph = job_of (sy_phase s t)"
  shows "excluded st (set_phase t ph s)"
  using assms unfolding excluded_def by auto

lemma excluded_land_load: "excluded st s \<Longrightarrow> excluded st (land_load p d e s)"
  by (simp add: excluded_def)

lemma excluded_queue:
  assumes "excluded st s" and "sy_phase s t = Arrived j" and "locks_get (sy_table s) (j_user j) = (m, l)"
  shows "excluded st (set_phase t (Queued m j) (s\<lparr>sy_table := l\<rparr>))"
proof -
  have ok: "locks_ok (sy_table s)" using assms(1) by (rule excludedD(1))
  have l: "locks_ok l" "map_get l (j_user j) = Some m"
    using mx.ok_acquire [OF ok, of "j_user j"] mx.acquire_known [OF ok, of "j_user j"] assms(3) by simp_all
  have keep: "map_get l v = Some n" if "map_get (sy_table s) v = Some n" for v n
    using mx.acquire_keeps [OF ok that, of "j_user j"] assms(3) by simp
  have "Get st (j_user j) = (Some (j_quota j), True)" using excludedD(4) [OF assms(1), of t j] assms(2) by simp
  with assms(1,2) l keep show ?thesis unfolding excluded_def by auto
qed

lemma excluded_lock:
  assumes "excluded st s" and "sy_phase s t = Queued m j" and "sy_owner s m = None"
  shows "excluded st (set_phase t (Deciding m j) (s\<lparr>sy_owner := (sy_owner s)(m := Some t)\<rparr>))"
proof -
  have free: "holds (sy_phase s ta) \<noteq> Some (m, ja)" for ta ja
    using excludedD(3) [OF assms(1), of ta m ja] assms(3) by auto
  have "knows (Queued m j) = Some (m, j)" by simp
  then have "map_get (sy_table s) (j_user j) = Some m" "Get st (j_user j) = (Some (j_quota j), True)"
    using excludedD(2,4) [OF assms(1), of t] assms(2) by simp_all
  then show ?thesis using assms(1) free unfolding excluded_def by auto
qed

lemma excluded_step: "step st timeouts s s' \<Longrightarrow> excluded st s \<Longrightarrow> excluded st s'"
proof (induction rule: step.induct)
  case (arrive s t j)
  then show ?case unfolding excluded_def by auto
next
  case (queue s t j m l)
  then show ?case by (intro excluded_queue)
next
  case (lock s t m j)
  then show ?case by (intro excluded_lock)
next
  case (land s t m j d e)
  then show ?case by (intro excluded_stay excluded_land_load) simp_all
next
  case (land_late s t j d e)
  then show ?case unfolding excluded_def by auto
next
  case (outside s p e)
  then show ?case by (intro excluded_land_load)
qed (auto intro: excluded_leave excluded_stay)

lemma excluded_start: "excluded st (start_sys l)"
  by (simp add: excluded_def start_sys_def locks_ok_def)

definition reaches :: "store \<Rightarrow> bool \<Rightarrow> (string \<Rightarrow> load) \<Rightarrow> sys \<Rightarrow> bool" where
  "reaches st timeouts l s = (step st timeouts)\<^sup>*\<^sup>* (start_sys l) s"

lemma reaches_excluded: "reaches st timeouts l s \<Longrightarrow> excluded st s"
  unfolding reaches_def
  by (erule reachable_invariant [where P = "excluded st"]) (rule excluded_start, rule excluded_step)

lemma excluded_unique:
  assumes "excluded st s" and "holds (sy_phase s t) = Some (m, j)" and "holds (sy_phase s t') = Some (m', j')"
    and "j_user j = j_user j'"
  shows "t = t'"
proof -
  have "m = m'"
    using excludedD(2) [OF assms(1) holds_knows [OF assms(2)]] excludedD(2) [OF assms(1) holds_knows [OF assms(3)]] assms(4)
    by simp
  then show ?thesis using excludedD(3) [OF assms(1,2)] excludedD(3) [OF assms(1,3)] by simp
qed

section \<open>Mutual exclusion\<close>

lemma same_pool_same_user:
  assumes "valid_config (s_cfg st)" and "Get st u = (Some q, True)" and "Get st v = (Some r, True)"
    and "q_Pool q = q_Pool r"
  shows "u = v"
  using qs.lookup_injective [OF assms(1), of u q v r] assms(2-4) by simp

lemma same_pool_unique:
  assumes "valid_config (s_cfg st)" and "excluded st s"
    and "holds (sy_phase s t) = Some (m, j)" and "holds (sy_phase s t') = Some (m', j')" and "j_pool j = j_pool j'"
  shows "t = t'"
proof -
  have job: "job_of ph = Some j" if "holds ph = Some (m, j)" for ph m j
    using that by (cases ph) auto
  have "j_user j = j_user j'"
    using same_pool_same_user [OF assms(1) excludedD(4) [OF assms(2) job [OF assms(3)]]
        excludedD(4) [OF assms(2) job [OF assms(4)]]] assms(5)
    by (simp add: j_pool_def)
  then show ?thesis by (rule excluded_unique [OF assms(2-4)])
qed

text \<open>
  C7. However the requests of all users interleave, at most one write per pool is between its
  decision and the end of its settling.
\<close>

theorem one_write_per_pool:
  assumes "valid_config (s_cfg st)" and "reaches st timeouts l s"
    and "holds (sy_phase s t) = Some (m, j)" and "holds (sy_phase s t') = Some (m', j')" and "j_pool j = j_pool j'"
  shows "t = t'"
  by (rule same_pool_unique [OF assms(1) reaches_excluded [OF assms(2)] assms(3-5)])

section \<open>No overshoot\<close>













section \<open>A run\<close>

definition demo_store :: store where
  "demo_store = \<lparr>s_cfg = demo_config, s_mtime = 1\<rparr>"

definition demo_cap :: "string \<Rightarrow> load" where
  "demo_cap p = limit_load demo_quota []"

definition demo_job :: job where
  "demo_job = \<lparr>j_user = ''x@pve'', j_quota = demo_quota, j_res = Classify ''POST'' ''/api2/json/nodes/n1/lxc'',
     j_params = [(''cores'', ''16''), (''vmid'', ''200'')]\<rparr>"

definition demo_delta :: delta where
  "demo_delta = \<lparr>d_Cores = 16, d_MemoryMiB = 512, d_Instances = 1, d_DiskBytes = []\<rparr>"

definition empty_api :: api where
  "empty_api = demo_api\<lparr>PoolMembers := (\<lambda>_. Inr [])\<rparr>"

lemma demo_store_valid: "valid_config (s_cfg demo_store)"
  using demo_valid by (simp add: demo_store_def Validate_None)

lemma demo_store_Get: "Get demo_store u = (Some q, True) \<longleftrightarrow> u = ''x@pve'' \<and> q = demo_quota"
  by (auto simp: Get_def demo_store_def demo_config_def split: if_splits)



lemma empty_api_usage: "UserUsage empty_api p = Inr empty_usage"
  by (simp add: UserUsage_def empty_api_def)

lemma empty_usage_load: "usage_load empty_usage = (\<lambda>_. 0)"
proof
  fix k
  show "usage_load empty_usage k = 0" by (cases k) (simp_all add: empty_usage_def)
qed

lemma demo_job_delta: "request_delta empty_api (j_res demo_job) (j_params demo_job) = Inr demo_delta"
  by code_simp

lemma demo_delta_positive: "positive demo_delta"
  by (simp add: positive_def demo_delta_def word_sless_alt)

lemma demo_grants: "grants empty_api empty_api demo_job (\<lambda>_. 0) demo_delta"
proof -
  have "no_wrap empty_usage demo_delta" "fits empty_usage demo_delta demo_quota node" for node
    by (simp_all add: no_wrap_def in_int64_def fits_def effectiveLimits_def empty_usage_def demo_delta_def demo_quota_def)
  moreover have "res_Action (j_res demo_job) \<noteq> ActionStorageAlloc" by code_simp
  moreover have "j_quota demo_job = demo_quota" by (simp add: demo_job_def)
  ultimately show ?thesis
    using checkQuota_fits by (simp add: grants_def decide_allowed admits_def demo_job_delta empty_api_usage empty_usage_load)
qed

definition demo_table :: locks where
  "demo_table = [(''x@pve'', 0)]"

text \<open>A thread takes its mutex and is admitted; the pool is empty, whatever other threads have pending.\<close>

lemma demo_admitted:
  assumes "reaches demo_store to (\<lambda>_ _. 0) s" and "sy_phase s t = Finished" and "sy_owner s 0 = None"
    and "sy_table s = [] \<or> sy_table s = demo_table" and "sy_load s = (\<lambda>_ _. 0)"
  shows "reaches demo_store to (\<lambda>_ _. 0)
    \<lparr>sy_table = demo_table, sy_owner = (sy_owner s)(0 := Some t),
     sy_phase = (sy_phase s)(t := InFlight 0 demo_job demo_delta False), sy_load = sy_load s, sy_excess = sy_excess s\<rparr>"
proof -
  have g: "Get demo_store (j_user demo_job) = (Some (j_quota demo_job), True)"
    by (simp add: demo_store_Get demo_job_def)
  let ?s1 = "set_phase t (Arrived demo_job) s"
  have 1: "step demo_store to s ?s1" using assms(2) g by (rule step.arrive)
  let ?s2 = "set_phase t (Queued 0 demo_job) (?s1\<lparr>sy_table := demo_table\<rparr>)"
  have "locks_get (sy_table ?s1) (j_user demo_job) = (0, demo_table)"
    using assms(4) by (auto simp: locks_get_def demo_job_def demo_table_def)
  then have 2: "step demo_store to ?s1 ?s2" by (intro step.queue) simp_all
  let ?s3 = "set_phase t (Deciding 0 demo_job) (?s2\<lparr>sy_owner := (sy_owner ?s2)(0 := Some t)\<rparr>)"
  have 3: "step demo_store to ?s2 ?s3" using assms(3) by (intro step.lock) (simp_all add: set_phase_def)
  let ?s4 = "set_phase t (Granted 0 demo_job demo_delta) ?s3"
  have 4: "step demo_store to ?s3 ?s4"
    using demo_grants assms(5) by (intro step.grant [of _ _ _ _ empty_api empty_api]) (simp_all add: set_phase_def)
  let ?s5 = "set_phase t (InFlight 0 demo_job demo_delta False) ?s4"
  have 5: "step demo_store to ?s4 ?s5" using demo_delta_positive by (intro step.forward) simp_all
  have "reaches demo_store to (\<lambda>_ _. 0) ?s5"
    using assms(1) 1 2 3 4 5 unfolding reaches_def by (meson rtranclp.rtrancl_into_rtrancl)
  then show ?thesis by (cases s) (simp add: set_phase_def)
qed

lemma demo_start: "reaches demo_store to (\<lambda>_ _. 0) (start_sys (\<lambda>_ _. 0))"
  by (simp add: reaches_def)

definition demo_inflight :: sys where
  "demo_inflight = \<lparr>sy_table = demo_table, sy_owner = (\<lambda>_. None)(0 := Some 1),
     sy_phase = (\<lambda>_. Finished)(1 := InFlight 0 demo_job demo_delta False), sy_load = (\<lambda>_ _. 0),
     sy_excess = (\<lambda>_ _. 0)\<rparr>"

lemma demo_inflight_reached: "reaches demo_store to (\<lambda>_ _. 0) demo_inflight"
  using demo_admitted [OF demo_start, of 1 to] by (simp add: start_sys_def demo_inflight_def)


theorem one_write_per_pool_witness: "{t. holds (sy_phase demo_inflight t) = Some (0, demo_job)} = {1}"
proof -
  have own: "holds (sy_phase demo_inflight 1) = Some (0, demo_job)" by (simp add: demo_inflight_def)
  have "t = 1" if "holds (sy_phase demo_inflight t) = Some (0, demo_job)" for t
    using one_write_per_pool [OF demo_store_valid demo_inflight_reached [of False] that own] by simp
  with own show ?thesis by blast
qed

text \<open>
  With a settle timeout a second request reads usage from before the first one's task landed:
  two guests of 16 cores each under a limit of 16, though PVE adds just what was charged.
\<close>

lemma settle_timeout_overshoots:
  "\<exists>s. reaches demo_store True (\<lambda>_ _. 0) s \<and> sy_excess s = (\<lambda>_ _. 0) \<and>
    demo_cap ''uq-x'' DCores < sy_load s ''uq-x'' DCores"
proof -
  let ?s1 = "set_phase 1 (TimedOut demo_job demo_delta) (unlock 0 demo_inflight)"
  let ?add = "land_load (j_pool demo_job) (delta_load demo_delta) (delta_load demo_delta)"
  have pool: "j_pool demo_job = ''uq-x''" by (simp add: j_pool_def demo_job_def demo_quota_def)
  have 1: "step demo_store True demo_inflight ?s1"
    by (rule step.give_up) (simp_all add: demo_inflight_def)
  then have r1: "reaches demo_store True (\<lambda>_ _. 0) ?s1"
    using demo_inflight_reached unfolding reaches_def by (meson rtranclp.rtrancl_into_rtrancl)
  let ?s2 = "\<lparr>sy_table = demo_table, sy_owner = (sy_owner ?s1)(0 := Some 2),
     sy_phase = (sy_phase ?s1)(2 := InFlight 0 demo_job demo_delta False), sy_load = sy_load ?s1, sy_excess = sy_excess ?s1\<rparr>"
  have r2: "reaches demo_store True (\<lambda>_ _. 0) ?s2"
    by (rule demo_admitted [OF r1]) (simp_all add: demo_inflight_def)
  let ?s3 = "set_phase 1 Finished (?add ?s2)"
  have 3: "step demo_store True ?s2 ?s3" by (rule step.land_late) simp
  let ?s4 = "set_phase 2 (InFlight 0 demo_job demo_delta True) (?add ?s3)"
  have 4: "step demo_store True ?s3 ?s4" by (rule step.land) simp
  have "reaches demo_store True (\<lambda>_ _. 0) ?s4"
    using r2 3 4 unfolding reaches_def by (meson rtranclp.rtrancl_into_rtrancl)
  moreover have "demo_cap ''uq-x'' DCores < sy_load ?s4 ''uq-x'' DCores"
    by (simp add: pool plus_load_def demo_inflight_def demo_cap_def effectiveLimits_def demo_quota_def demo_delta_def)
  moreover have "sy_excess ?s4 = (\<lambda>_ _. 0)"
    by (auto simp: demo_inflight_def plus_load_def fun_eq_iff max_def)
  ultimately show ?thesis by blast
qed

section \<open>No deadlock\<close>

definition manned :: "sys \<Rightarrow> bool" where
  "manned s = (\<forall>m t. sy_owner s m = Some t \<longrightarrow> (\<exists>j. holds (sy_phase s t) = Some (m, j)))"

lemma manned_leave:
  assumes "manned s" and "holds (sy_phase s t) = Some (m, j)"
  shows "manned (set_phase t ph (unlock m s))"
  using assms by (fastforce simp: manned_def)

lemma manned_stay:
  assumes "manned s" and "holds ph = holds (sy_phase s t)" and "sy_owner s' = sy_owner s" and "sy_phase s' = sy_phase s"
  shows "manned (set_phase t ph s')"
  using assms by (auto simp: manned_def)

lemma manned_step: "step st timeouts s s' \<Longrightarrow> manned s \<Longrightarrow> manned s'"
proof (induction rule: step.induct)
  case (lock s t m j)
  then have "\<not> (\<exists>m. sy_owner s m = Some t)" by (force simp: manned_def)
  with lock show ?case by (auto simp: manned_def)
next
  case (outside s p e)
  then show ?case by (simp add: manned_def)
qed (auto intro: manned_leave manned_stay)

lemma reaches_manned: "reaches st timeouts l s \<Longrightarrow> manned s"
  unfolding reaches_def
  by (erule reachable_invariant [where P = manned]) (simp add: manned_def start_sys_def, rule manned_step)

text \<open>
  Whatever phase its owner is in, it leaves the critical section by steps of its own and of its
  task; a decision is taken even when PVE answers no read.
\<close>

lemma leaves:
  assumes "holds (sy_phase s t) = Some (m, j)"
  shows "\<exists>s'. (step st timeouts)\<^sup>*\<^sup>* s s' \<and> sy_owner s' m = None \<and>
    (\<forall>u. u \<noteq> t \<longrightarrow> sy_phase s' u = sy_phase s u)"
proof -
  have settled: "\<exists>s'. (step st timeouts)\<^sup>*\<^sup>* s s' \<and> sy_owner s' m = None \<and> (\<forall>u. u \<noteq> t \<longrightarrow> sy_phase s' u = sy_phase s u)"
    if "step st timeouts s (set_phase t Finished (unlock m s))" for s
    using that by (intro exI [of _ "set_phase t Finished (unlock m s)"]) simp
  have landed: "\<exists>s'. (step st timeouts)\<^sup>*\<^sup>* s s' \<and> sy_owner s' m = None \<and> (\<forall>u. u \<noteq> t \<longrightarrow> sy_phase s' u = sy_phase s u)"
    if "step st timeouts s s1" "sy_phase s1 t = ph" "\<forall>u. u \<noteq> t \<longrightarrow> sy_phase s1 u = sy_phase s u"
      "step st timeouts s1 (set_phase t Finished (unlock m s1))" for s s1 ph
    using that by (intro exI [of _ "set_phase t Finished (unlock m s1)"]) auto
  show ?thesis
  proof (cases "sy_phase s t")
    case (Deciding m' j')
    then have ph: "sy_phase s t = Deciding m j" using assms by simp
    define a where "a = demo_api\<lparr>PoolMembers := (\<lambda>_. Inl (ApiError [])), GuestConfig := (\<lambda>_ _ _. Inl (ApiError []))\<rparr>"
    consider (no) "\<not> dc_allowed (fst (decide True a a (j_res j) (j_quota j) (j_params j)))"
      | (alloc) "dc_allowed (fst (decide True a a (j_res j) (j_quota j) (j_params j)))"
          "res_Action (j_res j) = ActionStorageAlloc"
      | (yes) "dc_allowed (fst (decide True a a (j_res j) (j_quota j) (j_params j)))"
          "res_Action (j_res j) \<noteq> ActionStorageAlloc"
      by blast
    then show ?thesis
    proof cases
      case no
      then show ?thesis using ph by (intro settled step.deny)
    next
      case alloc
      then show ?thesis using ph by (intro settled step.alloc)
    next
      case yes
      then obtain d where d: "request_delta a (j_res j) (j_params j) = Inr d"
        by (auto simp: decide_allowed admits_def split: sum.splits)
      have "UserUsage a (j_pool j) = Inl e" if "e = PoolError (j_pool j) (ApiError [])" for e
        using that by (simp add: UserUsage_def a_def)
      then have "grants a a j (sy_load s (j_pool j)) d" using yes d by (simp add: grants_def)
      then show ?thesis
        using ph by (intro landed [of s "set_phase t (Granted m j d) s"] step.grant step.refused) auto
    qed
  next
    case (Granted m' j' d)
    then show ?thesis using assms by (intro settled step.refused) simp
  next
    case (InFlight m' j' d b)
    show ?thesis
    proof (cases b)
      case True
      then show ?thesis using assms InFlight by (intro settled step.settle) simp
    next
      case False
      then show ?thesis using assms InFlight
        by (intro landed [of s "set_phase t (InFlight m j d True) (land_load (j_pool j) (delta_load d) (delta_load d) s)"]
            step.land step.settle) auto
    qed
  qed (use assms in simp_all)
qed

text \<open>
  C13. No deadlock: from every reachable state, a request that waits for its user's mutex can get
  to its decision by steps of the mutex's present owner and its own alone, without the help of
  any third request and without the settle timeout.
\<close>

theorem queued_proceeds:
  assumes "reaches st timeouts l s" and "sy_phase s t = Queued m j"
  shows "\<exists>s'. (step st False)\<^sup>*\<^sup>* s s' \<and> sy_phase s' t = Deciding m j \<and> sy_owner s' m = Some t \<and>
    (\<forall>u. sy_owner s m \<noteq> Some u \<longrightarrow> u \<noteq> t \<longrightarrow> sy_phase s' u = sy_phase s u)"
proof -
  have "\<exists>s1. (step st False)\<^sup>*\<^sup>* s s1 \<and> sy_owner s1 m = None \<and> sy_phase s1 t = Queued m j \<and>
    (\<forall>u. sy_owner s m \<noteq> Some u \<longrightarrow> sy_phase s1 u = sy_phase s u)"
  proof (cases "sy_owner s m")
    case (Some t')
    then obtain j' where h: "holds (sy_phase s t') = Some (m, j')"
      using reaches_manned [OF assms(1)] by (auto simp: manned_def)
    then have "t' \<noteq> t" using assms(2) by auto
    obtain s1 where "(step st False)\<^sup>*\<^sup>* s s1" "sy_owner s1 m = None" "\<forall>u. u \<noteq> t' \<longrightarrow> sy_phase s1 u = sy_phase s u"
      using leaves [OF h] by blast
    with \<open>t' \<noteq> t\<close> Some assms(2) show ?thesis by (intro exI [of _ s1]) simp
  qed (use assms(2) in auto)
  then obtain s1 where s1: "(step st False)\<^sup>*\<^sup>* s s1" "sy_owner s1 m = None" "sy_phase s1 t = Queued m j"
    "\<forall>u. sy_owner s m \<noteq> Some u \<longrightarrow> sy_phase s1 u = sy_phase s u" by blast
  let ?s2 = "set_phase t (Deciding m j) (s1\<lparr>sy_owner := (sy_owner s1)(m := Some t)\<rparr>)"
  have "step st False s1 ?s2" using s1(2,3) by (intro step.lock)
  then have "(step st False)\<^sup>*\<^sup>* s ?s2" using s1(1) by (rule rtranclp.rtrancl_into_rtrancl [rotated])
  with s1(4) show ?thesis by (intro exI [of _ ?s2]) simp
qed

text \<open>A second request of the same user waits while the first one's task runs.\<close>

definition demo_waiting :: sys where
  "demo_waiting = set_phase 2 (Queued 0 demo_job) demo_inflight"

lemma demo_waiting_reached: "reaches demo_store False (\<lambda>_ _. 0) demo_waiting"
proof -
  let ?s1 = "set_phase 2 (Arrived demo_job) demo_inflight"
  have 1: "step demo_store False demo_inflight ?s1"
    by (rule step.arrive) (simp_all add: demo_inflight_def demo_store_Get demo_job_def)
  have "step demo_store False ?s1 (set_phase 2 (Queued 0 demo_job) (?s1\<lparr>sy_table := demo_table\<rparr>))"
    by (rule step.queue) (simp_all add: demo_inflight_def demo_table_def locks_get_def demo_job_def)
  moreover have "set_phase 2 (Queued 0 demo_job) (?s1\<lparr>sy_table := demo_table\<rparr>) = demo_waiting"
    by (simp add: demo_waiting_def set_phase_def demo_inflight_def)
  ultimately show ?thesis
    using demo_inflight_reached 1 unfolding reaches_def by (metis rtranclp.rtrancl_into_rtrancl)
qed

theorem queued_proceeds_witness:
  "\<exists>s'. (step demo_store False)\<^sup>*\<^sup>* demo_waiting s' \<and> sy_phase s' 2 = Deciding 0 demo_job"
  using queued_proceeds [OF demo_waiting_reached, of 2 0 demo_job] by (auto simp: demo_waiting_def)

section \<open>The middleware follows the model\<close>











definition placed :: "nat \<Rightarrow> nat \<Rightarrow> locks \<Rightarrow> nat option \<Rightarrow> phase \<Rightarrow> sys \<Rightarrow> sys" where
  "placed t m l own ph s = s\<lparr>sy_table := l, sy_owner := (sy_owner s)(m := own), sy_phase := (sy_phase s)(t := ph)\<rparr>"

lemma placed_simps [simp]:
  "sy_table (placed t m l own ph s) = l" "sy_owner (placed t m l own ph s) m = own"
  "sy_phase (placed t m l own ph s) t = ph" "sy_load (placed t m l own ph s) = sy_load s"
  "u \<noteq> t \<Longrightarrow> sy_phase (placed t m l own ph s) u = sy_phase s u"
  "set_phase t ph' (placed t m l own ph s) = placed t m l own ph' s"
  "unlock m (placed t m l own ph s) = placed t m l None ph s"
  "land_load p d e (placed t m l own ph s) = placed t m l own ph (land_load p d e s)"
  by (simp_all add: placed_def set_phase_def unlock_def land_load_def)



















end
