(* ===== verification/Neturl.thy ===== *)
theory Neturl imports Httpreq "HOL-Library.List_Lexorder" "HOL-Library.Char_ord" begin

text \<open>
  Go's package \<open>net/url\<close>, the type \<open>URL\<close>: parsing of the upstream address and of a request
  target, the escaped path, the request target that is sent, and \<open>Values.Encode\<close>. User
  information is checked but not kept, the program does not use it.
\<close>

section \<open>The type\<close>

record url =
  ur_Scheme :: string
  ur_Opaque :: string
  ur_Host :: string
  ur_Path :: string
  ur_RawPath :: string
  ur_ForceQuery :: bool
  ur_RawQuery :: string

definition empty_url :: url where
  "empty_url = \<lparr>ur_Scheme = [], ur_Opaque = [], ur_Host = [], ur_Path = [], ur_RawPath = [],
     ur_ForceQuery = False, ur_RawQuery = []\<rparr>"

section \<open>Paths\<close>

fun PathUnescape :: "string \<Rightarrow> string option" where
  "PathUnescape [] = Some []"
| "PathUnescape (c # s) =
     (if c = CHR ''%'' then
        (case s of
           a # b # t \<Rightarrow>
             (case (hex_val a, hex_val b) of
                (Some x, Some y) \<Rightarrow> map_option (\<lambda>r. char_of (16 * x + y) # r) (PathUnescape t)
              | _ \<Rightarrow> None)
         | _ \<Rightarrow> None)
      else map_option (\<lambda>r. c # r) (PathUnescape s))"

definition path_plain :: "char \<Rightarrow> bool" where
  "path_plain c = (unreserved c \<or> c \<in> set ''$&+,/:;=@'')"

definition escape_path :: "string \<Rightarrow> string" where
  "escape_path s = concat (map (\<lambda>c. if path_plain c then [c] else percent c) s)"

definition validEncoded :: "string \<Rightarrow> bool" where
  "validEncoded s = list_all (\<lambda>c. c \<in> set ''!&()*+,;=:@[]$%'' \<or> c = char_of (39 :: nat) \<or> path_plain c) s"

definition setPath :: "string \<Rightarrow> url \<Rightarrow> url option" where
  "setPath p u =
     (case PathUnescape p of
        None \<Rightarrow> None
      | Some path \<Rightarrow> Some (u\<lparr>ur_Path := path, ur_RawPath := (if p = escape_path path then [] else p)\<rparr>))"

definition EscapedPath :: "url \<Rightarrow> string" where
  "EscapedPath u =
     (if ur_RawPath u \<noteq> [] \<and> validEncoded (ur_RawPath u) \<and> PathUnescape (ur_RawPath u) = Some (ur_Path u)
      then ur_RawPath u
      else if ur_Path u = ''*'' then ''*''
      else escape_path (ur_Path u))"

definition RequestURI :: "url \<Rightarrow> string" where
  "RequestURI u =
     (let path =
        (if ur_Opaque u = [] then (if EscapedPath u = [] then ''/'' else EscapedPath u)
         else if HasPrefix (ur_Opaque u) ''//'' then ur_Scheme u @ '':'' @ ur_Opaque u
         else ur_Opaque u)
      in if ur_ForceQuery u \<or> ur_RawQuery u \<noteq> [] then path @ ''?'' @ ur_RawQuery u else path)"

section \<open>Parsing\<close>

definition is_alpha :: "char \<Rightarrow> bool" where
  "is_alpha c = (let n = (of_char c :: nat) in 65 \<le> n \<and> n \<le> 90 \<or> 97 \<le> n \<and> n \<le> 122)"

text \<open>The result is the scheme and the rest; \<open>None\<close> is a missing scheme before a colon.\<close>

fun scheme_loop :: "string \<Rightarrow> string \<Rightarrow> string \<Rightarrow> (string \<times> string) option" where
  "scheme_loop raw acc [] = Some ([], raw)"
| "scheme_loop raw acc (c # s) =
     (if is_alpha c then scheme_loop raw (acc @ [c]) s
      else if is_digit c \<or> c \<in> set ''+-.'' then
        (if acc = [] then Some ([], raw) else scheme_loop raw (acc @ [c]) s)
      else if c = CHR '':'' then (if acc = [] then None else Some (acc, s))
      else Some ([], raw))"

definition getScheme :: "string \<Rightarrow> (string \<times> string) option" where
  "getScheme raw = scheme_loop raw [] raw"

definition validOptionalPort :: "string \<Rightarrow> bool" where
  "validOptionalPort p = (case p of [] \<Rightarrow> True | c # ds \<Rightarrow> c = CHR '':'' \<and> list_all is_digit ds)"

definition validUserinfo :: "string \<Rightarrow> bool" where
  "validUserinfo s = list_all (\<lambda>c. is_alpha c \<or> is_digit c \<or> c \<in> set ''-._:~!$&()*+,;=%@'' \<or> c = char_of (39 :: nat)) s"

text \<open>Unescaping a host: a percent escape must stand for a byte beyond ASCII or for a percent sign.\<close>

fun host_unescape :: "string \<Rightarrow> string option" where
  "host_unescape [] = Some []"
| "host_unescape (c # s) =
     (if c = CHR ''%'' then
        (case s of
           a # b # t \<Rightarrow>
             (case (hex_val a, hex_val b) of
                (Some x, Some y) \<Rightarrow>
                  if x < 8 \<and> \<not> (a = CHR ''2'' \<and> b = CHR ''5'') then None
                  else map_option (\<lambda>r. char_of (16 * x + y) # r) (host_unescape t)
              | _ \<Rightarrow> None)
         | _ \<Rightarrow> None)
      else if (of_char c :: nat) < 128 \<and> \<not> (unreserved c \<or> c \<in> set ''!$&()*+,;=:[]<>'' \<or>
          c = char_of (34 :: nat) \<or> c = char_of (39 :: nat)) then None
      else map_option (\<lambda>r. c # r) (host_unescape s))"

text \<open>A zone, after \<open>%25\<close> in brackets, may hold any escape of a byte a host may hold, and spaces.\<close>

fun zone_unescape :: "string \<Rightarrow> string option" where
  "zone_unescape [] = Some []"
| "zone_unescape (c # s) =
     (if c = CHR ''%'' then
        (case s of
           a # b # t \<Rightarrow>
             (case (hex_val a, hex_val b) of
                (Some x, Some y) \<Rightarrow>
                  (let v = char_of (16 * x + y); n = 16 * x + y in
                   if n \<noteq> 37 \<and> n \<noteq> 32 \<and> \<not> (unreserved v \<or> v \<in> set ''!$&()*+,;=:[]<>'' \<or> n = 34 \<or> n = 39)
                   then None
                   else map_option (\<lambda>r. v # r) (zone_unescape t))
              | _ \<Rightarrow> None)
         | _ \<Rightarrow> None)
      else if (of_char c :: nat) < 128 \<and> \<not> (unreserved c \<or> c \<in> set ''!$&()*+,;=:[]<>'' \<or>
          c = char_of (34 :: nat) \<or> c = char_of (39 :: nat)) then None
      else map_option (\<lambda>r. c # r) (zone_unescape s))"

fun find_zone :: "string \<Rightarrow> nat option" where
  "find_zone [] = None"
| "find_zone (c # s) = (if HasPrefix (c # s) ''%25'' then Some 0 else map_option Suc (find_zone s))"

definition parseHost :: "string \<Rightarrow> string option" where
  "parseHost host =
     (if HasPrefix host ''['' then
       (case LastIndex host CHR '']'' of
          None \<Rightarrow> None
        | Some i \<Rightarrow>
            if \<not> validOptionalPort (drop (i + 1) host) then None
            else (case find_zone (take i host) of
                None \<Rightarrow> host_unescape host
              | Some z \<Rightarrow>
                  (case (host_unescape (take z host), zone_unescape (drop z (take i host)), host_unescape (drop i host)) of
                     (Some h1, Some h2, Some h3) \<Rightarrow> Some (h1 @ h2 @ h3)
                   | _ \<Rightarrow> None)))
      else
       (case LastIndex host CHR '':'' of
          Some i \<Rightarrow> if validOptionalPort (drop i host) then host_unescape host else None
        | None \<Rightarrow> host_unescape host))"

text \<open>The host of an authority; user information that is not valid is an error.\<close>

definition parseAuthority :: "string \<Rightarrow> string option" where
  "parseAuthority a =
     (case LastIndex a CHR ''@'' of
        None \<Rightarrow> parseHost a
      | Some i \<Rightarrow>
          (case parseHost (drop (i + 1) a) of
             None \<Rightarrow> None
           | Some h \<Rightarrow>
               (let info = take i a in
                if validUserinfo info \<and> PathUnescape (fst (Cut info CHR '':'')) \<noteq> None
                  \<and> PathUnescape (fst (snd (Cut info CHR '':''))) \<noteq> None then Some h else None)))"

definition control_byte :: "char \<Rightarrow> bool" where
  "control_byte c = ((of_char c :: nat) < 32 \<or> (of_char c :: nat) = 127)"

text \<open>A trailing question mark, if it is the only one, sets a flag; the first one splits else.\<close>

definition split_query :: "string \<Rightarrow> string \<times> bool \<times> string" where
  "split_query s =
     (let (path, q, found) = Cut s CHR ''?'' in
      if found \<and> q = [] then (path, True, []) else (path, False, q))"

definition parse_url :: "bool \<Rightarrow> string \<Rightarrow> url option" where
  "parse_url viaRequest raw =
     (if list_ex control_byte raw then None
      else if raw = [] \<and> viaRequest then None
      else if raw = ''*'' then Some (empty_url\<lparr>ur_Path := ''*''\<rparr>)
      else case getScheme raw of
        None \<Rightarrow> None
      | Some (scheme0, rest0) \<Rightarrow>
         (let scheme = ToLower scheme0;
              (rest, force, query) = split_query rest0;
              u = empty_url\<lparr>ur_Scheme := scheme, ur_ForceQuery := force, ur_RawQuery := query\<rparr>
          in if \<not> HasPrefix rest ''/'' \<and> scheme \<noteq> [] then Some (u\<lparr>ur_Opaque := rest\<rparr>)
             else if \<not> HasPrefix rest ''/'' \<and> viaRequest then None
             else if \<not> HasPrefix rest ''/'' \<and> CHR '':'' \<in> set (fst (Cut rest CHR ''/'')) then None
             else if (scheme \<noteq> [] \<or> \<not> viaRequest \<and> \<not> HasPrefix rest ''///'') \<and> HasPrefix rest ''//'' then
               (let a = drop 2 rest;
                    authority = takeWhile (\<lambda>c. c \<noteq> CHR ''/'') a;
                    path = dropWhile (\<lambda>c. c \<noteq> CHR ''/'') a
                in case parseAuthority authority of
                     None \<Rightarrow> None
                   | Some h \<Rightarrow> setPath path (u\<lparr>ur_Host := h\<rparr>))
             else setPath rest u))"

text \<open>\<open>Parse\<close> cuts off a fragment, which must unescape.\<close>

definition url_Parse :: "string \<Rightarrow> url option" where
  "url_Parse raw =
     (let (u, frag, _) = Cut raw CHR ''#'' in
      case parse_url False u of
        None \<Rightarrow> None
      | Some v \<Rightarrow> if PathUnescape frag = None then None else Some v)"

definition ParseRequestURI :: "string \<Rightarrow> url option" where
  "ParseRequestURI raw = parse_url True raw"

section \<open>Queries\<close>

text \<open>
  The pairs of a query that decode, whatever the others; \<open>Encode\<close> sorts them by key, the
  values of a key in their order.
\<close>

definition Encode :: "(string \<times> string) list \<Rightarrow> string" where
  "Encode ps = join CHR ''&'' (map (\<lambda>(k, v). QueryEscape k @ ''='' @ QueryEscape v) (sort_key fst ps))"

section \<open>A request target is kept\<close>

lemma scheme_loop_slash: "scheme_loop raw acc (CHR ''/'' # s) = Some ([], raw)"
  by (simp add: is_alpha_def is_digit_def)

text \<open>What a target in origin form is parsed to.\<close>

lemma ParseRequestURI_origin:
  assumes "p = CHR ''/'' # r" and "CHR ''?'' \<notin> set p" and "\<not> list_ex control_byte (p @ q)" and "PathUnescape p = Some path"
  shows "ParseRequestURI p = Some (empty_url\<lparr>ur_Path := path, ur_RawPath := if p = escape_path path then [] else p\<rparr>)"
    and "q \<noteq> [] \<Longrightarrow> ParseRequestURI (p @ CHR ''?'' # q) =
      Some (empty_url\<lparr>ur_Path := path, ur_RawPath := (if p = escape_path path then [] else p), ur_RawQuery := q\<rparr>)"
proof -
  have scheme: "getScheme (p @ s) = Some ([], p @ s)" for s
    using assms(1) by (simp add: getScheme_def scheme_loop_slash del: scheme_loop.simps)
  have c: "\<not> control_byte CHR ''?''" by (simp add: control_byte_def)
  have star: "p @ s \<noteq> ''*''" for s using assms(1) by simp
  have sp: "setPath p u = Some (u\<lparr>ur_Path := path, ur_RawPath := if p = escape_path path then [] else p\<rparr>)" for u
    using assms(4) by (simp add: setPath_def)
  have slash: "HasPrefix p ''/''" using assms(1) by simp
  have ne: "p @ s \<noteq> []" for s using assms(1) by simp
  have noq: "split_query p = (p, False, [])"
    using assms(2) by (simp add: split_query_def Cut_notin)
  show "ParseRequestURI p = Some (empty_url\<lparr>ur_Path := path, ur_RawPath := if p = escape_path path then [] else p\<rparr>)"
    using assms(3) scheme [of "[]"] star [of "[]"] ne [of "[]"] noq slash
    by (simp add: ParseRequestURI_def parse_url_def sp empty_url_def ToLower.simps)
  show "ParseRequestURI (p @ CHR ''?'' # q) =
      Some (empty_url\<lparr>ur_Path := path, ur_RawPath := (if p = escape_path path then [] else p), ur_RawQuery := q\<rparr>)"
    if "q \<noteq> []"
  proof -
    have "split_query (p @ CHR ''?'' # q) = (p, False, q)"
      using assms(2) that by (simp add: split_query_def Cut_append)
    then show ?thesis
      using assms(3) c scheme [of "CHR ''?'' # q"] star [of "CHR ''?'' # q"] slash
      by (simp add: ParseRequestURI_def parse_url_def sp empty_url_def)
  qed
qed

lemma EscapedPath_kept:
  assumes "PathUnescape p = Some path" and "validEncoded p" and "p \<noteq> []" and "path \<noteq> ''*''"
    and "ur_Path u = path" and "ur_RawPath u = (if p = escape_path path then [] else p)"
  shows "EscapedPath u = p"
  using assms by (simp add: EscapedPath_def)

end
