(* ===== verification/Forwarding.thy ===== *)
theory Forwarding imports Neturl Identity Response begin

text \<open>
  \<open>internal/proxy/proxy.go\<close>: the pass-through core. \<open>New\<close> builds a \<open>httputil.ReverseProxy\<close>; what
  that does to a request before and after it calls the \<open>Rewrite\<close> function is modelled from the
  standard library. Which PEM texts hold a certificate and what the upstream server answers
  are parameters.
\<close>

section \<open>Headers\<close>

type_synonym header = "(string, string list) gomap"

definition token_byte :: "char \<Rightarrow> bool" where
  "token_byte c = (is_alpha c \<or> is_digit c \<or> c \<in> set ''!#$%&*+-.^_|~'' \<or> c = char_of (39 :: nat) \<or> c = char_of (96 :: nat))"

fun canon :: "bool \<Rightarrow> string \<Rightarrow> string" where
  "canon up [] = []"
| "canon up (c # s) = (if up then upper1 c else lower1 c) # canon (c = CHR ''-'') s"

definition CanonicalHeaderKey :: "string \<Rightarrow> string" where
  "CanonicalHeaderKey s = (if list_all token_byte s then canon True s else s)"

definition Header_Del :: "string \<Rightarrow> header \<Rightarrow> header" where
  "Header_Del k h = filter (\<lambda>p. fst p \<noteq> CanonicalHeaderKey k) h"

definition Header_Set :: "string \<Rightarrow> string \<Rightarrow> header \<Rightarrow> header" where
  "Header_Set k v h = map_put (CanonicalHeaderKey k) [v] h"

definition header_values :: "header \<Rightarrow> string \<Rightarrow> string list" where
  "header_values h k = (case map_get h k of None \<Rightarrow> [] | Some vs \<Rightarrow> vs)"

definition trimOWS :: "string \<Rightarrow> string" where
  "trimOWS s = rev (dropWhile (\<lambda>c. c = CHR '' '' \<or> c = CHR 0x09) (rev (dropWhile (\<lambda>c. c = CHR '' '' \<or> c = CHR 0x09) s)))"

definition HeaderValuesContainsToken :: "string list \<Rightarrow> string \<Rightarrow> bool" where
  "HeaderValuesContainsToken vs token =
     list_ex (\<lambda>v. list_ex (\<lambda>t. map lower1 (trimOWS t) = map lower1 token) (Split v CHR '','')) vs"

section \<open>What the reverse proxy prepares\<close>

text \<open>What the server knows of a request beside what the admission looks at.\<close>

record conn =
  cn_URL :: url
  cn_Host :: string
  cn_RemoteAddr :: string
  cn_TLS :: bool

record out_request =
  out_Method :: string
  out_URL :: url
  out_Host :: string
  out_Header :: header
  out_Body :: "body option"
  out_ContentLength :: int

definition hopHeaders :: "string list" where
  "hopHeaders = [''Connection'', ''Proxy-Connection'', ''Keep-Alive'', ''Proxy-Authenticate'',
     ''Proxy-Authorization'', ''Te'', ''Trailer'', ''Transfer-Encoding'', ''Upgrade'']"

text \<open>The header fields a request's \<open>Connection\<close> header names.\<close>

definition connection_fields :: "header \<Rightarrow> string list" where
  "connection_fields h =
     filter (\<lambda>f. f \<noteq> []) (concat (map (\<lambda>v. map TrimString (Split v CHR '','')) (header_values h ''Connection'')))"

definition removeHopByHopHeaders :: "header \<Rightarrow> header" where
  "removeHopByHopHeaders h = fold Header_Del hopHeaders (fold Header_Del (connection_fields h) h)"

definition upgradeType :: "header \<Rightarrow> string" where
  "upgradeType h =
     (if HeaderValuesContainsToken (header_values h ''Connection'') ''Upgrade'' then Header_Get h ''Upgrade'' else [])"

definition forwardHeaders :: "string list" where
  "forwardHeaders = [''Forwarded'', ''X-Forwarded-For'', ''X-Forwarded-Host'', ''X-Forwarded-Proto'']"

fun percent_ok :: "string \<Rightarrow> bool" where
  "percent_ok [] = True"
| "percent_ok (c # s) =
     (if c = CHR '';'' then False
      else if c = CHR ''%'' then
        (case s of a # b # t \<Rightarrow> hex_val a \<noteq> None \<and> hex_val b \<noteq> None \<and> percent_ok t | _ \<Rightarrow> False)
      else percent_ok s)"

definition cleanQueryParams :: "string \<Rightarrow> string" where
  "cleanQueryParams s =
     (if percent_ok s then s else Encode (fst (query_pairs (Split s CHR ''&''))))"

definition outgoing :: "request \<Rightarrow> conn \<Rightarrow> out_request" where
  "outgoing r c =
     (let h0 = rq_Header r;
          up = upgradeType h0;
          h1 = removeHopByHopHeaders h0;
          h2 = (if HeaderValuesContainsToken (header_values h0 ''Te'') ''trailers'' then Header_Set ''Te'' ''trailers'' h1 else h1);
          h3 = (if up = [] then h2 else Header_Set ''Upgrade'' up (Header_Set ''Connection'' ''Upgrade'' h2));
          h4 = fold Header_Del forwardHeaders h3
      in \<lparr>out_Method = rq_Method r,
          out_URL = (cn_URL c)\<lparr>ur_Path := rq_Path r, ur_RawQuery := cleanQueryParams (ur_RawQuery (cn_URL c))\<rparr>,
          out_Host = cn_Host c, out_Header = h4,
          out_Body = (if rq_ContentLength r = 0 then None else rq_Body r),
          out_ContentLength = rq_ContentLength r\<rparr>)"

section \<open>The \<open>Rewrite\<close> function\<close>

definition joinURLPath :: "url \<Rightarrow> url \<Rightarrow> string \<times> string" where
  "joinURLPath a b =
     (if ur_RawPath a = [] \<and> ur_RawPath b = [] then
       (let ap = ur_Path a; bp = ur_Path b in
        (if HasSuffix ap ''/'' \<and> HasPrefix bp ''/'' then ap @ tl bp
         else if \<not> HasSuffix ap ''/'' \<and> \<not> HasPrefix bp ''/'' then ap @ ''/'' @ bp
         else ap @ bp, []))
      else
       (let ap = EscapedPath a; bp = EscapedPath b in
        if HasSuffix ap ''/'' \<and> HasPrefix bp ''/'' then (ur_Path a @ tl (ur_Path b), ap @ tl bp)
        else if \<not> HasSuffix ap ''/'' \<and> \<not> HasPrefix bp ''/'' then (ur_Path a @ ''/'' @ ur_Path b, ap @ ''/'' @ bp)
        else (ur_Path a @ ur_Path b, ap @ bp)))"

definition SetURL :: "url \<Rightarrow> out_request \<Rightarrow> out_request" where
  "SetURL target o1 =
     (let b = out_URL o1;
          (path, raw) = joinURLPath target b;
          tq = ur_RawQuery target;
          query = (if tq = [] \<or> ur_RawQuery b = [] then tq @ ur_RawQuery b else tq @ ''&'' @ ur_RawQuery b)
      in o1\<lparr>out_URL := b\<lparr>ur_Scheme := ur_Scheme target, ur_Host := ur_Host target,
                            ur_Path := path, ur_RawPath := raw, ur_RawQuery := query\<rparr>,
            out_Host := []\<rparr>)"

text \<open>The host of \<open>net.SplitHostPort\<close>.\<close>

definition split_host :: "string \<Rightarrow> string option" where
  "split_host a =
     (case LastIndex a CHR '':'' of
        None \<Rightarrow> None
      | Some i \<Rightarrow>
          if HasPrefix a ''['' then
            (case Index a CHR '']'' of
               None \<Rightarrow> None
             | Some e \<Rightarrow>
                 if e + 1 \<noteq> i \<or> CHR ''['' \<in> set (drop 1 a) \<or> CHR '']'' \<in> set (drop (e + 1) a) then None
                 else Some (take (e - 1) (drop 1 a)))
          else if CHR '':'' \<in> set (take i a) \<or> CHR ''['' \<in> set a \<or> CHR '']'' \<in> set a then None
          else Some (take i a))"

fun join_comma :: "string list \<Rightarrow> string" where
  "join_comma [] = []"
| "join_comma [v] = v"
| "join_comma (v # w # vs) = v @ '', '' @ join_comma (w # vs)"

definition SetXForwarded :: "conn \<Rightarrow> out_request \<Rightarrow> out_request" where
  "SetXForwarded c o1 =
     (let h = out_Header o1;
          h1 = (case split_host (cn_RemoteAddr c) of
                  None \<Rightarrow> Header_Del ''X-Forwarded-For'' h
                | Some ip \<Rightarrow>
                    Header_Set ''X-Forwarded-For'' (join_comma (header_values h ''X-Forwarded-For'' @ [ip])) h);
          h2 = Header_Set ''X-Forwarded-Host'' (cn_Host c) h1;
          h3 = Header_Set ''X-Forwarded-Proto'' (if cn_TLS c then ''https'' else ''http'') h2
      in o1\<lparr>out_Header := h3\<rparr>)"

definition Rewrite :: "url \<Rightarrow> conn \<Rightarrow> out_request \<Rightarrow> out_request" where
  "Rewrite upstream c o1 = SetXForwarded c (SetURL upstream o1)"

definition no_user_agent :: "out_request \<Rightarrow> out_request" where
  "no_user_agent o1 =
     (if map_get (out_Header o1) ''User-Agent'' = None
      then o1\<lparr>out_Header := Header_Set ''User-Agent'' [] (out_Header o1)\<rparr> else o1)"

text \<open>What reaches the transport.\<close>

definition forwarded :: "url \<Rightarrow> request \<Rightarrow> conn \<Rightarrow> out_request" where
  "forwarded upstream r c = no_user_agent (Rewrite upstream c (outgoing r c))"

section \<open>The proxy\<close>

record proxy_options =
  po_Upstream :: url
  po_UpstreamCAPEM :: string
  po_InsecureUpstream :: bool

record tls_config =
  tls_MinVersion :: nat
  tls_InsecureSkipVerify :: bool
  tls_RootCAs :: "string option"

record proxy =
  px_Upstream :: url
  px_TLS :: tls_config
  px_ForceAttemptHTTP2 :: bool
  px_MaxIdleConnsPerHost :: nat
  px_FlushInterval :: int

text \<open>\<open>None\<close> as the root certificates stands for the system's.\<close>

definition proxy_New :: "(string \<Rightarrow> bool) \<Rightarrow> proxy_options \<Rightarrow> string + proxy" where
  "proxy_New has_certs opts =
     (if po_UpstreamCAPEM opts \<noteq> [] \<and> \<not> has_certs (po_UpstreamCAPEM opts)
      then Inl ''upstream CA: no certificates parsed''
      else Inr \<lparr>px_Upstream = po_Upstream opts,
        px_TLS = \<lparr>tls_MinVersion = 0x0303, tls_InsecureSkipVerify = po_InsecureUpstream opts,
                  tls_RootCAs = (if po_UpstreamCAPEM opts = [] then None else Some (po_UpstreamCAPEM opts))\<rparr>,
        px_ForceAttemptHTTP2 = False, px_MaxIdleConnsPerHost = 32, px_FlushInterval = -1\<rparr>)"

text \<open>\<open>http.Error\<close>: the status and the text on a line.\<close>

definition http_Error :: "string \<Rightarrow> nat \<Rightarrow> write_op list" where
  "http_Error msg code = [WriteHeader code, Write (msg @ [CHR 0x0A])]"

definition ErrorHandler :: "write_op list" where
  "ErrorHandler = http_Error ''uq-proxy: upstream unavailable'' 502"

text \<open>An upstream: an answer, or an error of the connection.\<close>

type_synonym transport = "tls_config \<Rightarrow> out_request \<Rightarrow> string + write_op list"

definition printable :: "string \<Rightarrow> bool" where
  "printable s = list_all (\<lambda>c. 32 \<le> (of_char c :: nat) \<and> (of_char c :: nat) \<le> 126) s"

definition proxy_ServeHTTP :: "proxy \<Rightarrow> transport \<Rightarrow> conn \<Rightarrow> request \<Rightarrow> write_op list" where
  "proxy_ServeHTTP px send c r =
     (if \<not> printable (upgradeType (rq_Header r)) then ErrorHandler
      else case send (px_TLS px) (forwarded (px_Upstream px) r c) of
        Inl err \<Rightarrow> ErrorHandler
      | Inr resp \<Rightarrow> resp)"

section \<open>Header lemmas\<close>

lemma Header_Del_get: "map_get (Header_Del k h) k' = (if k' = CanonicalHeaderKey k then None else map_get h k')"
  unfolding Header_Del_def by (induction h) auto

lemma Header_Del_all:
  "map_get (fold Header_Del ks h) k' = (if k' \<in> CanonicalHeaderKey ` set ks then None else map_get h k')"
  by (induction ks arbitrary: h) (auto simp: Header_Del_get)

lemma Header_Set_get: "map_get (Header_Set k v h) k' = (if k' = CanonicalHeaderKey k then Some [v] else map_get h k')"
  by (simp add: Header_Set_def gm.get_put)

lemma canonical_keys:
  "CanonicalHeaderKey ` set hopHeaders = set hopHeaders"
  "CanonicalHeaderKey ` set forwardHeaders = set forwardHeaders"
  "CanonicalHeaderKey ''X-Forwarded-For'' = ''X-Forwarded-For''"
  "CanonicalHeaderKey ''X-Forwarded-Host'' = ''X-Forwarded-Host''"
  "CanonicalHeaderKey ''X-Forwarded-Proto'' = ''X-Forwarded-Proto''"
  "CanonicalHeaderKey ''User-Agent'' = ''User-Agent''"
  "CanonicalHeaderKey ''Te'' = ''Te''"
  "CanonicalHeaderKey ''Upgrade'' = ''Upgrade''"
  "CanonicalHeaderKey ''Connection'' = ''Connection''"
  by code_simp+

text \<open>The fields the proxy may change: hop-by-hop ones, those the client names as such, its own.\<close>

definition rewritten :: "header \<Rightarrow> string set" where
  "rewritten h =
     set hopHeaders \<union> CanonicalHeaderKey ` set (connection_fields h) \<union> set forwardHeaders \<union> {''User-Agent''}"

lemma outgoing_header:
  assumes "k \<notin> rewritten (rq_Header r)"
  shows "map_get (out_Header (outgoing r c)) k = map_get (rq_Header r) k"
proof -
  have "k \<noteq> ''Te''" "k \<noteq> ''Upgrade''" "k \<noteq> ''Connection''"
    using assms by (auto simp: rewritten_def hopHeaders_def)
  then show ?thesis
    using assms
    by (simp add: outgoing_def Let_def Header_Del_all Header_Set_get canonical_keys removeHopByHopHeaders_def rewritten_def)
qed

lemma forwarded_header:
  assumes "k \<notin> rewritten (rq_Header r)"
  shows "map_get (out_Header (forwarded u r c)) k = map_get (rq_Header r) k"
proof -
  have "k \<noteq> ''X-Forwarded-For''" "k \<noteq> ''X-Forwarded-Host''" "k \<noteq> ''X-Forwarded-Proto''" "k \<noteq> ''User-Agent''"
    using assms by (auto simp: rewritten_def forwardHeaders_def)
  then show ?thesis
    using outgoing_header [OF assms, of c]
    by (simp add: forwarded_def no_user_agent_def Rewrite_def SetXForwarded_def SetURL_def Let_def
        Header_Del_get Header_Set_get canonical_keys split: option.split prod.split)
qed

section \<open>Who asks\<close>

lemma FromRequest_cong:
  assumes "map_get (rq_Header r) ''Authorization'' = map_get (rq_Header r') ''Authorization''"
    and "map_get (rq_Header r) ''Cookie'' = map_get (rq_Header r') ''Cookie''"
  shows "FromRequest r = FromRequest r'"
proof -
  have "Cookie r n = Cookie r' n" for n using assms(2) by (simp add: Cookie_def)
  moreover have "Header_Get (rq_Header r) ''Authorization'' = Header_Get (rq_Header r') ''Authorization''"
    using assms(1) by (simp add: Header_Get_def)
  ultimately show ?thesis by (simp only: FromRequest_def)
qed

definition seen_upstream :: "out_request \<Rightarrow> request \<Rightarrow> request" where
  "seen_upstream o1 r = r\<lparr>rq_Header := out_Header o1\<rparr>"

text \<open>
  C15. The upstream sees the identity the admission decided on, unless the client itself names
  the credentials as hop-by-hop fields in its \<open>Connection\<close> header.
\<close>

theorem identity_forwarded:
  assumes "''Authorization'' \<notin> CanonicalHeaderKey ` set (connection_fields (rq_Header r))"
    and "''Cookie'' \<notin> CanonicalHeaderKey ` set (connection_fields (rq_Header r))"
  shows "FromRequest (seen_upstream (forwarded u r c) r) = FromRequest r"
  using assms
  by (intro FromRequest_cong)
    (simp_all add: seen_upstream_def forwarded_header rewritten_def hopHeaders_def forwardHeaders_def)

definition demo_conn :: conn where
  "demo_conn = \<lparr>cn_URL = empty_url, cn_Host = ''pve.example'', cn_RemoteAddr = ''10.0.0.9:40000'', cn_TLS = True\<rparr>"

definition demo_upstream :: url where
  "demo_upstream = empty_url\<lparr>ur_Scheme := ''https'', ur_Host := ''127.0.0.1:8006''\<rparr>"

definition two_credentials :: "string \<Rightarrow> request" where
  "two_credentials connection =
     \<lparr>rq_Method = ''POST'', rq_Path = ''/api2/json/nodes/n1/lxc'',
      rq_Header = [(''Authorization'', [''PVEAPIToken=root@pam!x=0'']),
                   (''Cookie'', [''PVEAuthCookie=PVE:x@pve:65A0::sig'']), (''Connection'', [connection])],
      rq_Body = None, rq_ContentLength = 0, rq_GetBody = None\<rparr>"

theorem identity_forwarded_witness:
  "FromRequest (seen_upstream (forwarded demo_upstream (two_credentials ''keep-alive'') demo_conn) (two_credentials ''keep-alive'')) =
    FromRequest (two_credentials ''keep-alive'')"
proof -
  have "''Authorization'' \<notin> CanonicalHeaderKey ` set (connection_fields (rq_Header (two_credentials ''keep-alive'')))"
    "''Cookie'' \<notin> CanonicalHeaderKey ` set (connection_fields (rq_Header (two_credentials ''keep-alive'')))"
    by code_simp+
  then show ?thesis by (rule identity_forwarded)
qed

text \<open>
  Otherwise the admission may see an administrator's token, which nobody has verified, where the
  upstream sees the cookie of a user with a quota.
\<close>

lemma connection_hides_identity:
  "id_User (FromRequest (two_credentials ''authorization'')) = ''root@pam'' \<and>
   id_User (FromRequest (seen_upstream
     (forwarded demo_upstream (two_credentials ''authorization'') demo_conn) (two_credentials ''authorization''))) = ''x@pve''"
  by code_simp

section \<open>Forwarding headers\<close>

lemma outgoing_no_forwarding: "k \<in> set forwardHeaders \<Longrightarrow> map_get (out_Header (outgoing r c)) k = None"
  by (simp add: outgoing_def Let_def Header_Del_all canonical_keys)

text \<open>
  What the upstream is told of the client is the proxy's own: whatever forwarding headers the
  client sends, the forwarded request names the address, host and protocol of its connection.
\<close>

theorem forwarding_headers_genuine:
  "header_values (out_Header (forwarded u r c)) ''X-Forwarded-For'' =
     (case split_host (cn_RemoteAddr c) of None \<Rightarrow> [] | Some ip \<Rightarrow> [ip]) \<and>
   header_values (out_Header (forwarded u r c)) ''X-Forwarded-Host'' = [cn_Host c] \<and>
   header_values (out_Header (forwarded u r c)) ''X-Forwarded-Proto'' = [if cn_TLS c then ''https'' else ''http''] \<and>
   header_values (out_Header (forwarded u r c)) ''Forwarded'' = []"
proof -
  have "map_get (out_Header (outgoing r c)) ''X-Forwarded-For'' = None"
    "map_get (out_Header (outgoing r c)) ''Forwarded'' = None"
    by (simp_all add: outgoing_no_forwarding forwardHeaders_def)
  then show ?thesis
    by (simp add: forwarded_def no_user_agent_def Rewrite_def SetXForwarded_def SetURL_def Let_def
        header_values_def Header_Del_get Header_Set_get canonical_keys split: option.split prod.split)
qed

section \<open>The request itself\<close>

lemma HasSuffix_slash [simp]: "\<not> HasSuffix [] ''/''" "HasSuffix ''/'' ''/''"
  by (simp_all add: HasSuffix_def)

lemma join_bare:
  assumes "ur_Path u = [] \<or> ur_Path u = ''/''" and "ur_RawPath u = []"
    and "HasPrefix (ur_Path b) ''/''" and "HasPrefix (EscapedPath b) ''/''"
  shows "joinURLPath u b = (ur_Path b, if ur_RawPath b = [] then [] else EscapedPath b)"
proof -
  have e: "EscapedPath u = ur_Path u"
    using assms(1,2) by (auto simp: EscapedPath_def escape_path_def path_plain_def)
  from assms(3,4) obtain x y where "ur_Path b = ''/'' @ x" "EscapedPath b = ''/'' @ y" by (auto simp: HasPrefix_iff)
  with assms(1,2) e show ?thesis by (auto simp: joinURLPath_def Let_def)
qed

lemma outgoing_fields:
  "out_Method (outgoing r c) = rq_Method r" "out_ContentLength (outgoing r c) = rq_ContentLength r"
  "out_Body (outgoing r c) = (if rq_ContentLength r = 0 then None else rq_Body r)"
  "out_URL (outgoing r c) =
    (cn_URL c)\<lparr>ur_Path := rq_Path r, ur_RawQuery := cleanQueryParams (ur_RawQuery (cn_URL c))\<rparr>"
  by (simp_all only: outgoing_def Let_def out_request.simps)

lemma forwarded_fields:
  "out_Method (forwarded u r c) = rq_Method r" "out_ContentLength (forwarded u r c) = rq_ContentLength r"
  "out_Body (forwarded u r c) = (if rq_ContentLength r = 0 then None else rq_Body r)"
  "out_URL (forwarded u r c) = out_URL (SetURL u (outgoing r c))" "out_Host (forwarded u r c) = []"
  by (simp_all add: forwarded_def no_user_agent_def Rewrite_def SetXForwarded_def SetURL_def Let_def
      outgoing_fields split: prod.split)

definition target_text :: "string \<Rightarrow> string \<Rightarrow> string" where
  "target_text p q = (if q = [] then p else p @ ''?'' @ q)"

text \<open>
  C21. Invariant 2 of the design, as far as it holds: a request whose path is encoded as the
  standard library expects and whose query has no semicolon and no broken escape is sent to the
  upstream host with its method, target, body and all header fields as they came, but for the
  hop-by-hop, forwarding and user agent fields.
\<close>

theorem forwarded_verbatim:
  assumes "ur_Path u = [] \<or> ur_Path u = ''/''" and "ur_RawPath u = []" and "ur_RawQuery u = []"
    and "p = CHR ''/'' # rest" and "CHR ''?'' \<notin> set p" and "\<not> list_ex control_byte (p @ q)"
    and "validEncoded p" and "percent_ok q"
    and "ParseRequestURI (target_text p q) = Some (cn_URL c)" and "rq_Path r = ur_Path (cn_URL c)"
  shows "RequestURI (out_URL (forwarded u r c)) = target_text p q \<and>
    ur_Host (out_URL (forwarded u r c)) = ur_Host u \<and> ur_Scheme (out_URL (forwarded u r c)) = ur_Scheme u \<and>
    out_Host (forwarded u r c) = [] \<and>
    out_Method (forwarded u r c) = rq_Method r \<and>
    out_ContentLength (forwarded u r c) = rq_ContentLength r \<and>
    out_Body (forwarded u r c) = (if rq_ContentLength r = 0 then None else rq_Body r) \<and>
    (\<forall>k. k \<notin> rewritten (rq_Header r) \<longrightarrow> map_get (out_Header (forwarded u r c)) k = map_get (rq_Header r) k)"
proof -
  obtain path where path: "PathUnescape p = Some path"
  proof (cases "PathUnescape p")
    case None
    then have "setPath p v = None" for v by (simp add: setPath_def)
    moreover have "getScheme (target_text p q) = Some ([], target_text p q)"
      using assms(4) by (simp add: getScheme_def scheme_loop_slash target_text_def del: scheme_loop.simps)
    moreover have "split_query (target_text p q) = (p, False, q)"
      using assms(5) by (simp add: target_text_def split_query_def Cut_notin Cut_append)
    moreover have "target_text p q \<noteq> ''*''" "HasPrefix p ''/''" using assms(4) by (simp_all add: target_text_def)
    ultimately have "ParseRequestURI (target_text p q) = None"
      by (auto simp: ParseRequestURI_def parse_url_def Let_def)
    with assms(9) show ?thesis by simp
  qed
  have ru: "cn_URL c = empty_url\<lparr>ur_Path := path, ur_RawPath := (if p = escape_path path then [] else p), ur_RawQuery := q\<rparr>"
  proof (cases "q = []")
    case True
    then have "ParseRequestURI p = Some (cn_URL c)" using assms(9) by (simp add: target_text_def)
    then have "cn_URL c = empty_url\<lparr>ur_Path := path, ur_RawPath := (if p = escape_path path then [] else p)\<rparr>"
      using ParseRequestURI_origin(1) [OF assms(4,5,6) path] by (simp only: option.inject)
    with True show ?thesis by (simp add: empty_url_def)
  next
    case False
    then show ?thesis
      using ParseRequestURI_origin(2) [OF assms(4,5,6) path] assms(9) by (simp add: target_text_def)
  qed
  have slash: "HasPrefix path ''/''" using path assms(4) by auto
  then have star: "path \<noteq> ''*''" by auto
  have esc: "EscapedPath w = p" if "ur_Path w = path" "ur_RawPath w = (if p = escape_path path then [] else p)" for w
    using path assms(4,7) star that by (intro EscapedPath_kept) simp_all
  have pre: "HasPrefix p ''/''" using assms(4) by simp
  define b where "b = (cn_URL c)\<lparr>ur_Path := rq_Path r, ur_RawQuery := cleanQueryParams (ur_RawQuery (cn_URL c))\<rparr>"
  have b: "ur_Path b = path" "ur_RawPath b = (if p = escape_path path then [] else p)" "ur_RawQuery b = q"
    "ur_Opaque b = []" "\<not> ur_ForceQuery b"
    using ru assms(8,10) by (simp_all add: b_def cleanQueryParams_def empty_url_def)
  have j: "joinURLPath u b = (path, if ur_RawPath b = [] then [] else p)"
    using join_bare [OF assms(1,2), of b] b esc [of b] slash pre by simp
  define w where "w = out_URL (forwarded u r c)"
  have w: "w = b\<lparr>ur_Scheme := ur_Scheme u, ur_Host := ur_Host u, ur_Path := path,
      ur_RawPath := (if ur_RawPath b = [] then [] else p), ur_RawQuery := q\<rparr>"
    using j assms(3) b(3)
    by (simp add: w_def forwarded_fields SetURL_def outgoing_fields b_def [symmetric])
  have "EscapedPath w = p" using b(2) by (intro esc) (simp_all add: w)
  then have "RequestURI w = target_text p q"
    using b(4,5) assms(4) by (simp add: RequestURI_def w target_text_def)
  moreover have "ur_Host w = ur_Host u" "ur_Scheme w = ur_Scheme u" by (simp_all add: w)
  moreover have "out_Host (forwarded u r c) = []" "out_Method (forwarded u r c) = rq_Method r"
    "out_ContentLength (forwarded u r c) = rq_ContentLength r"
    "out_Body (forwarded u r c) = (if rq_ContentLength r = 0 then None else rq_Body r)"
    by (simp_all only: forwarded_fields)
  ultimately show ?thesis
    unfolding w_def by (intro conjI allI impI forwarded_header)
qed


definition demo_target :: string where
  "demo_target = ''/api2/json/nodes/n1/storage/local/content/local%3Aiso/x.iso''"

definition demo_get :: request where
  "demo_get = \<lparr>rq_Method = ''GET'', rq_Path = ''/api2/json/nodes/n1/storage/local/content/local:iso/x.iso'',
     rq_Header = [(''Accept'', [''*/*''])], rq_Body = None, rq_ContentLength = 0, rq_GetBody = None\<rparr>"

definition demo_get_conn :: conn where
  "demo_get_conn = demo_conn\<lparr>cn_URL := empty_url\<lparr>ur_Path := rq_Path demo_get, ur_RawPath := demo_target,
     ur_RawQuery := ''verbose=1''\<rparr>\<rparr>"

theorem forwarded_verbatim_witness:
  "RequestURI (out_URL (forwarded demo_upstream demo_get demo_get_conn)) = demo_target @ ''?verbose=1''"
proof -
  have "RequestURI (out_URL (forwarded demo_upstream demo_get demo_get_conn)) = target_text demo_target ''verbose=1''"
    by (rule conjunct1 [OF forwarded_verbatim [where rest = "''api2/json/nodes/n1/storage/local/content/local%3Aiso/x.iso''"]])
      code_simp+
  then show ?thesis by (simp add: target_text_def)
qed

text \<open>
  Outside those conditions the target is rewritten: a query with a semicolon loses its pairs, a
  path with a byte that should have been escaped is decoded and encoded anew, so that an escaped
  slash in it becomes a separator.
\<close>

lemma target_rewritten:
  "cleanQueryParams ''a=1;b=2'' = []"
  "map_option RequestURI (ParseRequestURI ''/a%2Fb|'') = Some ''/a/b%7C''"
  by code_simp+

section \<open>Upstream failures\<close>

text \<open>
  The proxy can be built unless a CA bundle is given that holds no certificate; it then
  verifies the upstream unless told not to, against that bundle or the system's certificates,
  and answers 502 itself exactly when the upgrade the client asks for is not printable or the
  upstream cannot be reached; else the client gets the upstream's answer as it is.
\<close>

theorem proxy_answers:
  "case proxy_New has_certs opts of
     Inl e \<Rightarrow> po_UpstreamCAPEM opts \<noteq> [] \<and> has_certs (po_UpstreamCAPEM opts) = False
   | Inr px \<Rightarrow>
       (po_UpstreamCAPEM opts = [] \<or> has_certs (po_UpstreamCAPEM opts)) \<and>
       tls_InsecureSkipVerify (px_TLS px) = po_InsecureUpstream opts \<and>
       tls_RootCAs (px_TLS px) = (if po_UpstreamCAPEM opts = [] then None else Some (po_UpstreamCAPEM opts)) \<and>
       proxy_ServeHTTP px transport c r =
         (case transport (px_TLS px) (forwarded (po_Upstream opts) r c) of
            Inr resp \<Rightarrow> if printable (upgradeType (rq_Header r)) then resp else ErrorHandler
          | Inl err \<Rightarrow> [WriteHeader 502, Write (''uq-proxy: upstream unavailable'' @ [CHR 0x0A])])"
  by (auto simp: proxy_New_def proxy_ServeHTTP_def ErrorHandler_def http_Error_def split: sum.split)

end
