(* ===== verification/Uqproxy.thy ===== *)
theory Uqproxy imports Serial Forwarding begin

text \<open>
  \<open>cmd/uq-proxy/main.go\<close>: the command line, the start of the program as a function from the
  flags and the environment to an exit status or a configured program, the server's handler,
  the admin listener and the shutdown. What the files hold, which PEM texts hold certificates
  and the YAML decoder are the environment.
\<close>

section \<open>Flags\<close>

record flags =
  fl_listen :: string
  fl_upstream :: string
  fl_tls_cert :: string
  fl_tls_key :: string
  fl_upstream_ca :: string
  fl_upstream_insecure :: bool
  fl_admin_listen :: string
  fl_quotas :: string
  fl_pve_token_file :: string
  fl_enforce :: bool
  fl_fail_closed :: bool
  fl_default_deny :: bool

definition default_flags :: flags where
  "default_flags =
     \<lparr>fl_listen = '':8006'', fl_upstream = [], fl_tls_cert = [], fl_tls_key = [], fl_upstream_ca = [],
      fl_upstream_insecure = False, fl_admin_listen = ''127.0.0.1:9090'', fl_quotas = [],
      fl_pve_token_file = [], fl_enforce = False, fl_fail_closed = False, fl_default_deny = False\<rparr>"

definition string_flags :: "string list" where
  "string_flags = [''listen'', ''upstream'', ''tls-cert'', ''tls-key'', ''upstream-ca'', ''admin-listen'',
     ''quotas'', ''pve-token-file'']"

definition bool_flags :: "string list" where
  "bool_flags = [''upstream-insecure'', ''enforce'', ''fail-closed'', ''default-deny'']"

definition set_string :: "string \<Rightarrow> string \<Rightarrow> flags \<Rightarrow> flags" where
  "set_string name v f =
     (if name = ''listen'' then f\<lparr>fl_listen := v\<rparr>
      else if name = ''upstream'' then f\<lparr>fl_upstream := v\<rparr>
      else if name = ''tls-cert'' then f\<lparr>fl_tls_cert := v\<rparr>
      else if name = ''tls-key'' then f\<lparr>fl_tls_key := v\<rparr>
      else if name = ''upstream-ca'' then f\<lparr>fl_upstream_ca := v\<rparr>
      else if name = ''admin-listen'' then f\<lparr>fl_admin_listen := v\<rparr>
      else if name = ''quotas'' then f\<lparr>fl_quotas := v\<rparr>
      else f\<lparr>fl_pve_token_file := v\<rparr>)"

definition set_bool :: "string \<Rightarrow> bool \<Rightarrow> flags \<Rightarrow> flags" where
  "set_bool name b f =
     (if name = ''upstream-insecure'' then f\<lparr>fl_upstream_insecure := b\<rparr>
      else if name = ''enforce'' then f\<lparr>fl_enforce := b\<rparr>
      else if name = ''fail-closed'' then f\<lparr>fl_fail_closed := b\<rparr>
      else f\<lparr>fl_default_deny := b\<rparr>)"

definition ParseBool :: "string \<Rightarrow> bool option" where
  "ParseBool s =
     (if s \<in> {''1'', ''t'', ''T'', ''TRUE'', ''true'', ''True''} then Some True
      else if s \<in> {''0'', ''f'', ''F'', ''FALSE'', ''false'', ''False''} then Some False
      else None)"

text \<open>
  \<open>flag.Parse\<close>: the flags up to the first argument that is none, or the status the program exits
  with: 0 after a request for help, 2 after an error.
\<close>

fun parse_flags :: "string list \<Rightarrow> flags \<Rightarrow> nat + flags" where
  "parse_flags [] f = Inr f"
| "parse_flags (s # args) f =
     (if \<not> HasPrefix s ''-'' \<or> s = ''-'' \<or> s = ''--'' then Inr f
      else
       (let name0 = (if HasPrefix s ''--'' then drop 2 s else drop 1 s);
            (name, value, has) = Cut name0 CHR ''=''
        in if name0 = [] \<or> HasPrefix name0 ''-'' \<or> HasPrefix name0 ''='' then Inl 2
           else if name \<in> set bool_flags then
             (case (if has then ParseBool value else Some True) of
                None \<Rightarrow> Inl 2
              | Some b \<Rightarrow> parse_flags args (set_bool name b f))
           else if name \<in> set string_flags then
             (if has then parse_flags args (set_string name value f)
              else (case args of [] \<Rightarrow> Inl 2 | v # rest \<Rightarrow> parse_flags rest (set_string name v f)))
           else if name = ''help'' \<or> name = ''h'' then Inl 0
           else Inl 2))"

section \<open>Start\<close>

record env =
  ev_yaml :: yaml
  ev_file :: "string \<Rightarrow> file_view"
  ev_has_certs :: "string \<Rightarrow> bool"

definition ReadFile :: "env \<Rightarrow> string \<Rightarrow> string option" where
  "ReadFile ev path = f_data (ev_file ev path)"

text \<open>Why the program does not start; the status is 1 when the proxy cannot be built, 2 else.\<close>

datatype start_error =
    MissingFlags
  | InvalidUpstream
  | UnreadableCA
  | QuotasRejected read_error
  | UnreadableToken
  | NoCertificates
  | EnforceNeeds
  | ModesNeedEnforce
  | ProxyFailed string

definition exit_code :: "start_error \<Rightarrow> nat" where
  "exit_code e = (case e of ProxyFailed _ \<Rightarrow> 1 | _ \<Rightarrow> 2)"

record program =
  pg_listen :: string
  pg_admin_listen :: string
  pg_store :: "store option"
  pg_client :: "(client \<times> tls_config) option"
  pg_enforcer :: enforcer
  pg_proxy :: proxy

text \<open>\<open>pve.New\<close>: what the client uses of the upstream address, beside the host, is its path and its query.\<close>

definition pve_New :: "url \<Rightarrow> string \<Rightarrow> client" where
  "pve_New base token = \<lparr>c_path = ur_Path base, c_query = ur_RawQuery base, c_token = token\<rparr>"

definition load_ca :: "env \<Rightarrow> flags \<Rightarrow> start_error + string" where
  "load_ca ev f =
     (if fl_upstream_ca f = [] then Inr []
      else case ReadFile ev (fl_upstream_ca f) of None \<Rightarrow> Inl UnreadableCA | Some pem \<Rightarrow> Inr pem)"

definition load_quotas :: "env \<Rightarrow> flags \<Rightarrow> start_error + store option" where
  "load_quotas ev f =
     (if fl_quotas f = [] then Inr None
      else case Open (ev_yaml ev) (ev_file ev (fl_quotas f)) of
        Inl e \<Rightarrow> Inl (QuotasRejected e)
      | Inr s \<Rightarrow> Inr (Some s))"

definition load_client :: "env \<Rightarrow> flags \<Rightarrow> url \<Rightarrow> string \<Rightarrow> start_error + (client \<times> tls_config) option" where
  "load_client ev f target caPEM =
     (if fl_pve_token_file f = [] then Inr None
      else case ReadFile ev (fl_pve_token_file f) of
        None \<Rightarrow> Inl UnreadableToken
      | Some tok \<Rightarrow>
          if caPEM \<noteq> [] \<and> \<not> ev_has_certs ev caPEM then Inl NoCertificates
          else Inr (Some (pve_New target (TrimSpace tok),
            \<lparr>tls_MinVersion = 0x0303, tls_InsecureSkipVerify = fl_upstream_insecure f,
             tls_RootCAs = (if caPEM = [] then None else Some caPEM)\<rparr>)))"

definition startup :: "env \<Rightarrow> flags \<Rightarrow> start_error + program" where
  "startup ev f =
     (if fl_upstream f = [] \<or> fl_tls_cert f = [] \<or> fl_tls_key f = [] then Inl MissingFlags
      else case url_Parse (fl_upstream f) of
        None \<Rightarrow> Inl InvalidUpstream
      | Some target \<Rightarrow>
          if ur_Scheme target = [] \<or> ur_Host target = [] then Inl InvalidUpstream
          else case load_ca ev f of Inl e \<Rightarrow> Inl e
      | Inr caPEM \<Rightarrow>
          (case load_quotas ev f of Inl e \<Rightarrow> Inl e
      | Inr quotaStore \<Rightarrow>
          (case load_client ev f target caPEM of Inl e \<Rightarrow> Inl e
      | Inr engine \<Rightarrow>
          if fl_enforce f \<and> (quotaStore = None \<or> engine = None) then Inl EnforceNeeds
          else if (fl_fail_closed f \<or> fl_default_deny f) \<and> \<not> fl_enforce f then Inl ModesNeedEnforce
          else
           (let admins = (case quotaStore of None \<Rightarrow> [] | Some s \<Rightarrow> Admins s);
                enforcer = New \<lparr>op_hasStore = quotaStore \<noteq> None, op_hasEngine = engine \<noteq> None, op_Admins = admins,
                  op_Enforce = fl_enforce f, op_FailClosed = fl_fail_closed f, op_DefaultDeny = fl_default_deny f\<rparr>
            in case proxy_New (ev_has_certs ev)
                \<lparr>po_Upstream = target, po_UpstreamCAPEM = caPEM, po_InsecureUpstream = fl_upstream_insecure f\<rparr> of
                 Inl e \<Rightarrow> Inl (ProxyFailed e)
               | Inr px \<Rightarrow>
                   Inr \<lparr>pg_listen = fl_listen f, pg_admin_listen = fl_admin_listen f, pg_store = quotaStore,
                        pg_client = engine, pg_enforcer = enforcer, pg_proxy = px\<rparr>))))"

section \<open>The handler of the listener\<close>

text \<open>
  The access log around the admission around the proxy. The store is the present content of the
  program's; without one the admission never looks at it.
\<close>

definition program_handler ::
    "program \<Rightarrow> (string \<Rightarrow> go_int) \<Rightarrow> transport \<Rightarrow> world \<Rightarrow> conn \<Rightarrow> request \<Rightarrow> estate \<Rightarrow>
     estate \<times> event list \<times> write_op list \<times> access_entry" where
  "program_handler pg accepted send w c r st =
     (let w' = w\<lparr>w_next := proxy_ServeHTTP (pg_proxy pg) send c\<rparr>;
          (st', evs, resp) = Middleware (pg_enforcer pg) w' r st;
          (out, entry) = WithAccessLog accepted (\<lambda>_. resp) r
      in (st', evs, out, entry))"

section \<open>The usage report\<close>

definition over_disk :: "disks \<Rightarrow> string \<times> go_int \<Rightarrow> bool" where
  "over_disk limits d =
     (case map_get limits (fst d) of
        None \<Rightarrow> True
      | Some lim \<Rightarrow> lim <s go_div (snd d + 2 ^ 30 - 1) (2 ^ 30))"

definition overQuota :: "usage \<Rightarrow> user_quota \<Rightarrow> bool" where
  "overQuota u q =
     (if q_Cores q <s u_Cores u \<or> q_MemoryMiB q <s u_MemoryMiB u \<or> q_Instances q <s u_Instances u then True
      else list_ex (over_disk (q_DiskGiB q)) (u_DiskBytes u))"

datatype report_error = NoRecord | UsageFailed api_error

record usage_entry =
  ue_User :: string
  ue_Pool :: string
  ue_Usage :: usage
  ue_DiskGiB :: disks
  ue_Quota :: "user_quota option"
  ue_OverQuota :: bool
  ue_Error :: "report_error option"

text \<open>\<open>None\<close> is the panic on a record that is \<open>nil\<close>. \<open>a\<close> is what PVE answers while the usage is read.\<close>

definition usage_report_entry :: "store \<Rightarrow> api \<Rightarrow> string \<Rightarrow> usage_entry option" where
  "usage_report_entry s a user =
     (let e = \<lparr>ue_User = user, ue_Pool = [], ue_Usage = \<lparr>u_Cores = 0, u_MemoryMiB = 0, u_Instances = 0, u_DiskBytes = []\<rparr>,
               ue_DiskGiB = [], ue_Quota = None, ue_OverQuota = False, ue_Error = None\<rparr>
      in case Get s user of
           (_, False) \<Rightarrow> Some (e\<lparr>ue_Error := Some NoRecord\<rparr>)
         | (None, True) \<Rightarrow> None
         | (Some q, True) \<Rightarrow>
             (let e1 = e\<lparr>ue_Pool := q_Pool q, ue_Quota := Some q\<rparr> in
              Some (case UserUsage a (q_Pool q) of
                 Inl err \<Rightarrow> e1\<lparr>ue_Error := Some (UsageFailed err)\<rparr>
               | Inr u \<Rightarrow> e1\<lparr>ue_Usage := u, ue_DiskGiB := DiskGiB u, ue_OverQuota := overQuota u q\<rparr>)))"

fun report_entries :: "store \<Rightarrow> (string \<Rightarrow> api) \<Rightarrow> string list \<Rightarrow> usage_entry list option" where
  "report_entries s apis [] = Some []"
| "report_entries s apis (user # users) =
     (case usage_report_entry s (apis user) user of
        None \<Rightarrow> None
      | Some e \<Rightarrow> map_option (\<lambda>es. e # es) (report_entries s apis users))"

datatype usage_reply = NotConfigured "write_op list" | Report "usage_entry list" | ReportPanics

definition usageHandler :: "store option \<Rightarrow> bool \<Rightarrow> (string \<Rightarrow> api) \<Rightarrow> string \<Rightarrow> usage_reply" where
  "usageHandler st hasEngine apis rawQuery =
     (case st of
        None \<Rightarrow> NotConfigured (http_Error ''accounting not configured (need -quotas and -pve-token-file)'' 503)
      | Some s \<Rightarrow>
          if \<not> hasEngine then
            NotConfigured (http_Error ''accounting not configured (need -quotas and -pve-token-file)'' 503)
          else
           (let u = str_at (fst (query_pairs (Split rawQuery CHR ''&''))) ''user'';
                users = (if u \<noteq> [] then [u] else Users s)
            in case report_entries s apis users of None \<Rightarrow> ReportPanics | Some es \<Rightarrow> Report es))"

section \<open>The admin listener\<close>

datatype admin_reply = Text "write_op list" | UsageReply usage_reply | MuxOwn

definition version :: string where
  "version = ''0.6.0-p6''"

text \<open>\<open>MuxOwn\<close> is the multiplexer's own answer: not found, or a redirect to a cleaned path.\<close>

definition admin_ServeHTTP :: "program \<Rightarrow> (string \<Rightarrow> api) \<Rightarrow> estate \<Rightarrow> string \<Rightarrow> string \<Rightarrow> admin_reply" where
  "admin_ServeHTTP pg apis st path rawQuery =
     (if path = ''/healthz'' then Text [Write (line (''ok uq-proxy '' @ version))]
      else if path = ''/usage'' then UsageReply (usageHandler (pg_store pg) (pg_client pg \<noteq> None) apis rawQuery)
      else if path = ''/metrics'' then Text [Write (WriteMetrics (es_metrics st))]
      else MuxOwn)"

section \<open>What a started program is\<close>

text \<open>The phases of the start, one after the other.\<close>

lemma startup_cases:
  assumes "startup ev f = Inr pg"
  obtains target caPEM where
    "fl_upstream f \<noteq> []" "fl_tls_cert f \<noteq> []" "fl_tls_key f \<noteq> []"
    "url_Parse (fl_upstream f) = Some target" "ur_Scheme target \<noteq> []" "ur_Host target \<noteq> []"
    "load_ca ev f = Inr caPEM" "load_quotas ev f = Inr (pg_store pg)"
    "load_client ev f target caPEM = Inr (pg_client pg)"
    "\<not> (fl_enforce f \<and> (pg_store pg = None \<or> pg_client pg = None))"
    "\<not> ((fl_fail_closed f \<or> fl_default_deny f) \<and> \<not> fl_enforce f)"
    "pg_enforcer pg = New \<lparr>op_hasStore = pg_store pg \<noteq> None, op_hasEngine = pg_client pg \<noteq> None,
       op_Admins = (case pg_store pg of None \<Rightarrow> [] | Some s \<Rightarrow> Admins s), op_Enforce = fl_enforce f,
       op_FailClosed = fl_fail_closed f, op_DefaultDeny = fl_default_deny f\<rparr>"
    "proxy_New (ev_has_certs ev)
       \<lparr>po_Upstream = target, po_UpstreamCAPEM = caPEM, po_InsecureUpstream = fl_upstream_insecure f\<rparr> = Inr (pg_proxy pg)"
proof -
  from assms obtain target caPEM st eng px where *:
    "fl_upstream f \<noteq> []" "fl_tls_cert f \<noteq> []" "fl_tls_key f \<noteq> []"
    "url_Parse (fl_upstream f) = Some target" "ur_Scheme target \<noteq> []" "ur_Host target \<noteq> []"
    "load_ca ev f = Inr caPEM" "load_quotas ev f = Inr st" "load_client ev f target caPEM = Inr eng"
    "\<not> (fl_enforce f \<and> (st = None \<or> eng = None))" "\<not> ((fl_fail_closed f \<or> fl_default_deny f) \<and> \<not> fl_enforce f)"
    "proxy_New (ev_has_certs ev)
       \<lparr>po_Upstream = target, po_UpstreamCAPEM = caPEM, po_InsecureUpstream = fl_upstream_insecure f\<rparr> = Inr px"
    "pg = \<lparr>pg_listen = fl_listen f, pg_admin_listen = fl_admin_listen f, pg_store = st, pg_client = eng,
       pg_enforcer = New \<lparr>op_hasStore = st \<noteq> None, op_hasEngine = eng \<noteq> None,
         op_Admins = (case st of None \<Rightarrow> [] | Some s \<Rightarrow> Admins s), op_Enforce = fl_enforce f,
         op_FailClosed = fl_fail_closed f, op_DefaultDeny = fl_default_deny f\<rparr>, pg_proxy = px\<rparr>"
    unfolding startup_def Let_def
    by (simp only: de_Morgan_disj if_split_mem1 split: if_split_asm option.split_asm sum.split_asm)
      (simp_all add: eq_commute [of _ pg])
  from *(13) have "pg_store pg = st" "pg_client pg = eng" "pg_proxy pg = px" by simp_all
  with * show thesis by (intro that [of target caPEM]) simp_all
qed

lemma New_simps [simp]:
  "e_store (New o1) = op_hasStore o1" "e_engine (New o1) = op_hasEngine o1" "e_enforce (New o1) = op_Enforce o1"
  "e_failClosed (New o1) = op_FailClosed o1" "e_defaultDeny (New o1) = op_DefaultDeny o1"
  by (simp_all add: New_def)

lemma fold_admins: "map_get (fold (\<lambda>a. map_put a True) as m) u = (if u \<in> set as then Some True else map_get m u)"
  by (induction as arbitrary: m) (auto simp: gm.get_put)

lemma is_admin_New: "is_admin (New o1) u \<longleftrightarrow> u \<in> set (op_Admins o1)"
  by (simp add: is_admin_def New_def fold_admins)

text \<open>
  C16. A program that starts does what its flags ask for: it never enforces without a valid quota
  store and an accounting client that verifies the upstream as the proxy does, the strict modes
  are on only with enforcement, the exempt users are those of the quota file at the start, and
  the upstream address has a scheme and a host.
\<close>

theorem started_program:
  assumes "startup ev f = Inr pg"
  shows "e_enforce (pg_enforcer pg) = fl_enforce f \<and> e_failClosed (pg_enforcer pg) = fl_fail_closed f \<and>
    e_defaultDeny (pg_enforcer pg) = fl_default_deny f \<and>
    (fl_fail_closed f \<or> fl_default_deny f \<longrightarrow> fl_enforce f) \<and>
    ur_Scheme (px_Upstream (pg_proxy pg)) \<noteq> [] \<and> ur_Host (px_Upstream (pg_proxy pg)) \<noteq> [] \<and>
    (fl_enforce f \<longrightarrow>
      (\<exists>s c. pg_store pg = Some s \<and> valid_config (s_cfg s) \<and> pg_client pg = Some (c, px_TLS (pg_proxy pg)) \<and>
        e_store (pg_enforcer pg) \<and> e_engine (pg_enforcer pg) \<and>
        (\<forall>u. is_admin (pg_enforcer pg) u \<longleftrightarrow> u \<in> set (Admins s))))"
  using assms
proof (cases rule: startup_cases)
  case (1 target caPEM)
  have px: "px_Upstream (pg_proxy pg) = target"
    "px_TLS (pg_proxy pg) = \<lparr>tls_MinVersion = 0x0303, tls_InsecureSkipVerify = fl_upstream_insecure f,
       tls_RootCAs = (if caPEM = [] then None else Some caPEM)\<rparr>"
  proof -
    have "pg_proxy pg = \<lparr>px_Upstream = target,
        px_TLS = \<lparr>tls_MinVersion = 0x0303, tls_InsecureSkipVerify = fl_upstream_insecure f,
          tls_RootCAs = (if caPEM = [] then None else Some caPEM)\<rparr>,
        px_ForceAttemptHTTP2 = False, px_MaxIdleConnsPerHost = 32, px_FlushInterval = -1\<rparr>"
      using 1(13) by (simp add: proxy_New_def split: if_split_asm)
    then show "px_Upstream (pg_proxy pg) = target"
      "px_TLS (pg_proxy pg) = \<lparr>tls_MinVersion = 0x0303, tls_InsecureSkipVerify = fl_upstream_insecure f,
         tls_RootCAs = (if caPEM = [] then None else Some caPEM)\<rparr>" by simp_all
  qed
  have enf: "\<exists>s c. pg_store pg = Some s \<and> valid_config (s_cfg s) \<and> pg_client pg = Some (c, px_TLS (pg_proxy pg)) \<and>
        e_store (pg_enforcer pg) \<and> e_engine (pg_enforcer pg) \<and>
        (\<forall>u. is_admin (pg_enforcer pg) u \<longleftrightarrow> u \<in> set (Admins s))" if en: "fl_enforce f"
  proof -
    obtain s c where sc: "pg_store pg = Some s" "pg_client pg = Some c" using 1(10) en by auto
    have "valid_config (s_cfg s)"
      using 1(8) sc(1) Open_valid by (auto simp: load_quotas_def split: if_splits sum.splits)
    moreover have "snd c = px_TLS (pg_proxy pg)"
      using 1(9) sc(2) px(2) by (auto simp: load_client_def split: if_splits option.splits)
    ultimately show ?thesis using sc 1(12) by (cases c) (simp add: is_admin_New)
  qed
  show ?thesis using 1(5,6,11,12) px(1) enf by auto
qed

section \<open>When it starts\<close>

definition ready :: "env \<Rightarrow> flags \<Rightarrow> bool" where
  "ready ev f =
     (fl_upstream f \<noteq> [] \<and> fl_tls_cert f \<noteq> [] \<and> fl_tls_key f \<noteq> [] \<and>
      (case url_Parse (fl_upstream f) of None \<Rightarrow> False | Some t \<Rightarrow> ur_Scheme t \<noteq> [] \<and> ur_Host t \<noteq> []) \<and>
      (fl_upstream_ca f = [] \<or>
       (case ReadFile ev (fl_upstream_ca f) of None \<Rightarrow> False | Some pem \<Rightarrow> pem = [] \<or> ev_has_certs ev pem)) \<and>
      (fl_quotas f = [] \<or> (\<exists>s. Open (ev_yaml ev) (ev_file ev (fl_quotas f)) = Inr s)) \<and>
      (fl_pve_token_file f = [] \<or> ReadFile ev (fl_pve_token_file f) \<noteq> None) \<and>
      (fl_enforce f \<longrightarrow> fl_quotas f \<noteq> [] \<and> fl_pve_token_file f \<noteq> []) \<and>
      (fl_fail_closed f \<or> fl_default_deny f \<longrightarrow> fl_enforce f))"

lemma load_quotas_Inr:
  "load_quotas ev f = Inr st \<longleftrightarrow>
    (if fl_quotas f = [] then st = None else \<exists>s. Open (ev_yaml ev) (ev_file ev (fl_quotas f)) = Inr s \<and> st = Some s)"
  by (auto simp: load_quotas_def split: sum.split)

lemma startup_Inr_ready:
  assumes "startup ev f = Inr pg"
  shows "ready ev f"
  using assms
proof (cases rule: startup_cases)
  case (1 target caPEM)
  have "fl_upstream_ca f = [] \<or> ReadFile ev (fl_upstream_ca f) = Some caPEM"
    using 1(7) by (auto simp: load_ca_def split: if_splits option.splits)
  moreover have "caPEM = [] \<or> ev_has_certs ev caPEM" using 1(13) by (auto simp: proxy_New_def split: if_splits)
  moreover have "fl_quotas f = [] \<longrightarrow> pg_store pg = None" "fl_quotas f \<noteq> [] \<longrightarrow> (\<exists>s. Open (ev_yaml ev) (ev_file ev (fl_quotas f)) = Inr s)"
    using 1(8) by (auto simp: load_quotas_Inr split: if_splits)
  moreover have "fl_pve_token_file f = [] \<longrightarrow> pg_client pg = None"
    "fl_pve_token_file f \<noteq> [] \<longrightarrow> ReadFile ev (fl_pve_token_file f) \<noteq> None"
    using 1(9) by (auto simp: load_client_def split: if_splits option.splits)
  ultimately show ?thesis using 1(1-6,10,11) by (auto simp: ready_def)
qed

lemma startup_Inl_code:
  assumes "startup ev f = Inl e"
  shows "\<not> ready ev f \<and>
    exit_code e = (if fl_pve_token_file f = [] \<and> ready (ev\<lparr>ev_has_certs := \<lambda>_. True\<rparr>) f then 1 else 2)"
  using assms unfolding startup_def Let_def
  by (simp split: if_split_asm option.split_asm sum.split_asm)
    (auto simp: ready_def exit_code_def load_ca_def load_quotas_def load_client_def proxy_New_def ReadFile_def
      split: if_splits option.splits sum.splits)

text \<open>
  C22. The program starts exactly when the required flags are there, the upstream address has a
  scheme and a host, every named file can be read and holds what it should, enforcement has its
  quota file and token and the strict modes have enforcement. Else it exits, with status 1 when
  all that is wrong is a CA bundle without certificates and no token file is named, with 2 else.
\<close>

theorem startup_total:
  "case startup ev f of
     Inr pg \<Rightarrow> ready ev f
   | Inl e \<Rightarrow> ready ev f = False \<and>
       exit_code e = (if fl_pve_token_file f = [] \<and> ready (ev\<lparr>ev_has_certs := \<lambda>_. True\<rparr>) f then 1 else 2)"
  using startup_Inr_ready [of ev f] startup_Inl_code [of ev f] by (simp split: sum.split)

section \<open>A configuration\<close>

definition demo_args :: "string list" where
  "demo_args = [''-upstream'', ''https://127.0.0.1:8006'', ''--tls-cert=tls.crt'', ''-tls-key'', ''tls.key'',
     ''-quotas'', ''quotas.yaml'', ''-pve-token-file'', ''token'', ''-enforce'', ''-fail-closed=true'', ''-default-deny'']"

definition demo_flags :: flags where
  "demo_flags = default_flags\<lparr>fl_upstream := ''https://127.0.0.1:8006'', fl_tls_cert := ''tls.crt'',
     fl_tls_key := ''tls.key'', fl_quotas := ''quotas.yaml'', fl_pve_token_file := ''token'', fl_enforce := True,
     fl_fail_closed := True, fl_default_deny := True\<rparr>"

lemma demo_args_parsed: "parse_flags demo_args default_flags = Inr demo_flags"
  by code_simp

lemma bad_args: "parse_flags [''-enforce=maybe''] f = Inl 2" "parse_flags [''-h''] f = Inl 0"
    "parse_flags [''-listen''] f = Inl 2" "parse_flags [''-nosuch''] f = Inl 2"
  by code_simp+

definition demo_env :: env where
  "demo_env = \<lparr>ev_yaml = demo_yaml,
     ev_file = (\<lambda>p. if p = ''quotas.yaml'' then \<lparr>f_stat = Some 1, f_data = Some ''good''\<rparr>
       else if p = ''token'' then \<lparr>f_stat = Some 1, f_data = Some ''uq-proxy@pve!id=secret''\<rparr>
       else \<lparr>f_stat = None, f_data = None\<rparr>),
     ev_has_certs = (\<lambda>_. False)\<rparr>"

definition demo_program :: program where
  "demo_program =
     \<lparr>pg_listen = '':8006'', pg_admin_listen = ''127.0.0.1:9090'', pg_store = Some demo_store,
      pg_client = Some (\<lparr>c_path = [], c_query = [], c_token = ''uq-proxy@pve!id=secret''\<rparr>,
        \<lparr>tls_MinVersion = 0x0303, tls_InsecureSkipVerify = False, tls_RootCAs = None\<rparr>),
      pg_enforcer = New \<lparr>op_hasStore = True, op_hasEngine = True, op_Admins = Admins demo_store, op_Enforce = True,
        op_FailClosed = True, op_DefaultDeny = True\<rparr>,
      pg_proxy = \<lparr>px_Upstream = demo_upstream,
        px_TLS = \<lparr>tls_MinVersion = 0x0303, tls_InsecureSkipVerify = False, tls_RootCAs = None\<rparr>,
        px_ForceAttemptHTTP2 = False, px_MaxIdleConnsPerHost = 32, px_FlushInterval = -1\<rparr>\<rparr>"

lemma demo_started: "startup demo_env demo_flags = Inr demo_program"
proof -
  have u: "url_Parse ''https://127.0.0.1:8006'' = Some demo_upstream" by code_simp
  have t: "TrimSpace ''uq-proxy@pve!id=secret'' = ''uq-proxy@pve!id=secret''" by code_simp
  show ?thesis
    by (simp add: startup_def load_ca_def load_quotas_def load_client_def proxy_New_def ReadFile_def u t demo_flags_def
        default_flags_def demo_env_def demo_Open demo_program_def demo_store_def pve_New_def demo_upstream_def empty_url_def)
qed

theorem started_program_witness: "e_enforce (pg_enforcer demo_program)"
  using started_program [OF demo_started] by (simp add: demo_flags_def)

section \<open>What is not admitted is not sent\<close>

text \<open>
  What the policy says of a request. A record that is \<open>nil\<close>, which no loaded store has, is never
  looked at by a request that is admitted.
\<close>

definition policy_admits :: "enforcer \<Rightarrow> world \<Rightarrow> request \<Rightarrow> bool" where
  "policy_admits e w r =
     (let res = Classify (rq_Method r) (rq_Path r) in
      res_Action res \<noteq> ActionPoolMembership \<and>
      (case Get (w_store w) (id_User (FromRequest r)) of
         (Some q, True) \<Rightarrow>
           admits (e_failClosed e) (request_delta (w_target w) res (snd (Params r res)))
             (UserUsage (w_usage w) (q_Pool q)) q (res_Node res)
       | (None, True) \<Rightarrow>
           \<not> derefs (w_target w) res (snd (Params r res)) \<and>
           admits (e_failClosed e) (request_delta (w_target w) res (snd (Params r res)))
             (UserUsage (w_usage w) []) nil_quota (res_Node res)
       | (_, False) \<Rightarrow> False))"

lemma enforce_locked_next:
  assumes "\<not> dc_allowed (fst (decide (e_failClosed e) (w_target w) (w_usage w) res q params))"
  shows "enforce_locked e (w\<lparr>w_next := n\<rparr>) r res q params st = enforce_locked e (w\<lparr>w_next := n'\<rparr>) r res q params st"
proof -
  obtain dec fs where d: "decide (e_failClosed e) (w_target w) (w_usage w) res q params = (dec, fs)" by fastforce
  with assms have "\<not> dc_allowed dec" by simp
  then show ?thesis by (simp add: enforce_locked_def d)
qed

lemma Middleware_denied_next:
  fixes e w r
  defines "res \<equiv> Classify (rq_Method r) (rq_Path r)"
  assumes "res_QuotaRelevant res" and "\<not> bypasses e r res" and "\<not> policy_admits e w r"
  shows "Middleware e (w\<lparr>w_next := n\<rparr>) r st = Middleware e (w\<lparr>w_next := n'\<rparr>) r st"
proof -
  obtain r' params where ps: "Params r res = (r', params)" by fastforce
  note m = Middleware_relevant [OF assms(2) [unfolded res_def], folded res_def, of e]
  consider (pool) "res_Action res = ActionPoolMembership"
    | (none) u where "res_Action res \<noteq> ActionPoolMembership" "Get (w_store w) (id_User (FromRequest r)) = (u, False)"
    | (nil) "res_Action res \<noteq> ActionPoolMembership" "Get (w_store w) (id_User (FromRequest r)) = (None, True)"
    | (some) q where "res_Action res \<noteq> ActionPoolMembership" "Get (w_store w) (id_User (FromRequest r)) = (Some q, True)"
    by (metis (full_types) option.exhaust surj_pair)
  then show ?thesis
  proof cases
    case pool
    then show ?thesis using assms(3) ps by (simp add: m)
  next
    case none
    then show ?thesis using assms(3) ps by (cases u) (simp_all add: m)
  next
    case nil
    obtain n0 l where l: "locks_get (es_locks (add_audited st)) (id_User (FromRequest r)) = (n0, l)" by fastforce
    have "locked_section e (w\<lparr>w_next := n\<rparr>) r' res None params st2 = locked_section e (w\<lparr>w_next := n'\<rparr>) r' res None params st2"
      for st2
    proof (cases "derefs (w_target w) res params")
      case False
      then have "\<not> dc_allowed (fst (decide (e_failClosed e) (w_target w) (w_usage w) res nil_quota params))"
        using nil assms(4) ps by (simp add: policy_admits_def decide_allowed res_def Let_def nil_quota_def)
      from enforce_locked_next [OF this, of n _ _ n'] False show ?thesis by (simp add: locked_section_def)
    qed (simp add: locked_section_def)
    then show ?thesis using nil assms(3) ps l by (simp add: m Let_def)
  next
    case some
    then have "\<not> dc_allowed (fst (decide (e_failClosed e) (w_target w) (w_usage w) res q params))"
      using assms(4) ps by (simp add: policy_admits_def decide_allowed res_def Let_def)
    from enforce_locked_next [OF this, of n _ _ n'] some assms(3) ps show ?thesis by (simp add: m Let_def)
  qed
qed

text \<open>
  C5. Composition of the whole program: once it has started with enforcement, a quota-relevant
  write of a user who is not exempt that the policy does not admit never reaches the upstream.
  State, trace, answer and log entry are the same for every upstream and every connection.
\<close>

theorem not_admitted_not_sent:
  fixes r
  defines "res \<equiv> Classify (rq_Method r) (rq_Path r)"
  assumes "startup ev f = Inr pg" and "fl_enforce f" and "pg_store pg = Some s"
    and "res_QuotaRelevant res" and "enforceable (res_Action res)"
    and "id_User (FromRequest r) \<notin> set (Admins s)" and "\<not> policy_admits (pg_enforcer pg) w r"
  shows "program_handler pg accepted send w c r st = program_handler pg accepted send' w c' r st"
  using assms(2)
proof (cases rule: startup_cases)
  case (1 target caPEM)
  have "\<not> bypasses (pg_enforcer pg) r res"
    using 1(10,12) assms(3,4,6,7) by (simp add: bypasses_def is_admin_New)
  from Middleware_denied_next [OF assms(5) [unfolded res_def] this [unfolded res_def] assms(8)]
  have "Middleware (pg_enforcer pg) (w\<lparr>w_next := proxy_ServeHTTP (pg_proxy pg) send c\<rparr>) r st =
    Middleware (pg_enforcer pg) (w\<lparr>w_next := proxy_ServeHTTP (pg_proxy pg) send' c'\<rparr>) r st" .
  then show ?thesis by (simp only: program_handler_def Let_def)
qed


theorem not_admitted_not_sent_witness:
  "program_handler demo_program (\<lambda>s. of_nat (length s)) (\<lambda>_ _. Inl ''down'') demo_world demo_conn
     (demo_request ''PUT'' ''/api2/json/pools/uq-x'') start_state =
   program_handler demo_program (\<lambda>s. of_nat (length s)) (\<lambda>_ _. Inr [WriteHeader 200]) demo_world demo_conn
     (demo_request ''PUT'' ''/api2/json/pools/uq-x'') start_state"
proof (rule not_admitted_not_sent [OF demo_started])
  let ?r = "demo_request ''PUT'' ''/api2/json/pools/uq-x''"
  show "fl_enforce demo_flags" by (simp add: demo_flags_def)
  show "pg_store demo_program = Some demo_store" by (simp add: demo_program_def)
  show "res_QuotaRelevant (Classify (rq_Method ?r) (rq_Path ?r))" "enforceable (res_Action (Classify (rq_Method ?r) (rq_Path ?r)))"
    "id_User (FromRequest ?r) \<notin> set (Admins demo_store)" "\<not> policy_admits (pg_enforcer demo_program) demo_world ?r"
    by code_simp+
qed

section \<open>The alarm of the usage report\<close>


lemma over_disk_exact:
  assumes "0 \<le> sint b" and "sint b + 1073741823 < 9223372036854775808"
  shows "over_disk limits (st, b) \<longleftrightarrow> \<not> (\<exists>lim. map_get limits st = Some lim \<and> sint b \<le> sint lim * 2 ^ 30)"
proof -
  have "sint (b + 1073741823) = sint b + 1073741823"
    using sint_add_in_range [of b 1073741823] assms by (simp add: add.commute)
  then have "sint (go_div (b + 2 ^ 30 - 1) (2 ^ 30)) = (sint b + 1073741823) div 1073741824"
    using sint_go_div_nonneg [of "b + 2 ^ 30 - 1" "2 ^ 30"] assms(1) by (simp add: add.commute)
  moreover have "(sint b + 1073741823) div 1073741824 \<le> k \<longleftrightarrow> sint b \<le> k * 1073741824" for k
  proof -
    define x where "x = (sint b + 1073741823) div 1073741824"
    define y where "y = (sint b + 1073741823) mod 1073741824"
    have "sint b + 1073741823 = 1073741824 * x + y" "0 \<le> y" "y < 1073741824"
      by (simp_all add: x_def y_def)
    then show ?thesis unfolding x_def [symmetric] by linarith
  qed
  ultimately show ?thesis
    by (cases "map_get limits st") (simp_all add: over_disk_def word_sless_alt not_le [symmetric])
qed

lemma over_disks_exact:
  assumes "list_all (\<lambda>(_, b). 0 \<le> sint b \<and> sint b + 1073741823 < 9223372036854775808) ds"
  shows "list_ex (over_disk limits) ds \<longleftrightarrow>
    \<not> list_all (\<lambda>(st, b). \<exists>lim. map_get limits st = Some lim \<and> sint b \<le> sint lim * 2 ^ 30) ds"
  using assms
proof (induction ds)
  case (Cons e ds)
  then show ?case using over_disk_exact [of "snd e" limits "fst e"] by (simp add: case_prod_beta)
qed simp

text \<open>
  The reconciliation alarm is raised exactly when some base limit is exceeded: cores, memory,
  instances, or the bytes on a storage that has no limit or a smaller one.
\<close>

theorem overQuota_exact:
  assumes "list_all (\<lambda>(_, b). 0 \<le> sint b \<and> sint b + 1073741823 < 9223372036854775808) (u_DiskBytes u)"
  shows "overQuota u q \<longleftrightarrow>
    \<not> (sint (u_Cores u) \<le> sint (q_Cores q) \<and> sint (u_MemoryMiB u) \<le> sint (q_MemoryMiB q) \<and>
       sint (u_Instances u) \<le> sint (q_Instances q) \<and>
       list_all (\<lambda>(st, b). \<exists>lim. map_get (q_DiskGiB q) st = Some lim \<and> sint b \<le> sint lim * 2 ^ 30) (u_DiskBytes u))"
proof -
  have "list_ex (over_disk (q_DiskGiB q)) (u_DiskBytes u) \<longleftrightarrow>
    \<not> list_all (\<lambda>(st, b). \<exists>lim. map_get (q_DiskGiB q) st = Some lim \<and> sint b \<le> sint lim * 2 ^ 30) (u_DiskBytes u)"
    using assms by (rule over_disks_exact)
  then show ?thesis by (auto simp: overQuota_def word_sless_alt not_less)
qed

theorem overQuota_exact_witness:
  "overQuota \<lparr>u_Cores = 6, u_MemoryMiB = 6144, u_Instances = 2, u_DiskBytes = [(''local'', 1073741824)]\<rparr> demo_quota"
  using overQuota_exact [of "\<lparr>u_Cores = 6, u_MemoryMiB = 6144, u_Instances = 2, u_DiskBytes = [(''local'', 1073741824)]\<rparr>" demo_quota]
  by (simp add: demo_quota_def)



text \<open>A disk of no bytes on a storage without a limit is enough for an alarm.\<close>

lemma empty_disk_alarm: "overQuota (empty_usage\<lparr>u_DiskBytes := [(''scratch'', 0)]\<rparr>) demo_quota"
  by (simp add: overQuota_def over_disk_def empty_usage_def demo_quota_def word_sless_alt)





section \<open>The usage report\<close>

text \<open>What an entry says of its user.\<close>

definition entry_faithful :: "store \<Rightarrow> (string \<Rightarrow> api) \<Rightarrow> usage_entry \<Rightarrow> bool" where
  "entry_faithful s apis e =
     (case Get s (ue_User e) of
        (Some q, True) \<Rightarrow>
          ue_Pool e = q_Pool q \<and> ue_Quota e = Some q \<and>
          (case UserUsage (apis (ue_User e)) (q_Pool q) of
             Inl err \<Rightarrow> ue_Error e = Some (UsageFailed err) \<and> \<not> ue_OverQuota e
           | Inr u \<Rightarrow> ue_Error e = None \<and> ue_Usage e = u \<and> ue_DiskGiB e = DiskGiB u \<and> ue_OverQuota e = overQuota u q)
      | _ \<Rightarrow> ue_Error e = Some NoRecord \<and> ue_Quota e = None \<and> \<not> ue_OverQuota e)"

lemma usage_report_entry_Some:
  assumes "valid_config (s_cfg s)"
  shows "\<exists>e. usage_report_entry s (apis user) user = Some e \<and> ue_User e = user \<and> entry_faithful s apis e"
proof -
  obtain q ok where g: "Get s user = (q, ok)" by fastforce
  then have "ok \<longrightarrow> q \<noteq> None" using Get_valid_pointer [OF assms, of user] by auto
  then show ?thesis
    using g by (cases q; cases ok)
      (auto simp: usage_report_entry_def entry_faithful_def Let_def split: sum.split)
qed

lemma report_entries_Some:
  assumes "valid_config (s_cfg s)"
  shows "\<exists>es. report_entries s apis users = Some es \<and> map ue_User es = users \<and> list_all (entry_faithful s apis) es"
proof (induction users)
  case (Cons user users)
  then show ?case using usage_report_entry_Some [OF assms, of apis user] by auto
qed simp

text \<open>
  C34. The usage report never panics on a store the loader accepted: it has an entry for each
  user of the quota file, or for the one asked for, in order, with the pool, the usage read for
  it and whether it exceeds the quota; an unknown user or a failed read is named as such and
  raises no alarm.
\<close>

theorem usage_report_faithful:
  assumes "valid_config (s_cfg s)"
  shows "\<exists>es. usageHandler (Some s) True apis raw = Report es \<and>
    map ue_User es = (let u = str_at (fst (query_pairs (Split raw CHR ''&''))) ''user'' in if u = [] then Users s else [u]) \<and>
    list_all (entry_faithful s apis) es"
proof -
  let ?u = "str_at (fst (query_pairs (Split raw CHR ''&''))) ''user''"
  obtain es where "report_entries s apis (if ?u = [] then Users s else [?u]) = Some es"
      "map ue_User es = (if ?u = [] then Users s else [?u])" "list_all (entry_faithful s apis) es"
    using report_entries_Some [OF assms] by blast
  then show ?thesis by (auto simp: usageHandler_def Let_def split: if_splits)
qed

theorem usage_report_faithful_witness:
  "\<exists>es. usageHandler (Some demo_store) True (\<lambda>_. empty_api) ''user=y%40pve'' = Report es \<and> map ue_User es = [''y@pve'']"
proof -
  have "str_at (fst (query_pairs (Split ''user=y%40pve'' CHR ''&''))) ''user'' = ''y@pve''" by code_simp
  then show ?thesis
    using usage_report_faithful [OF demo_store_valid, of "\<lambda>_. empty_api" "''user=y%40pve''"] by auto
qed

section \<open>Shutdown\<close>

text \<open>
  The goroutines at the end of \<open>main\<close>: the listener that accepts requests, the one that calls
  \<open>Shutdown\<close> after a signal, and \<open>main\<close>, which waits in \<open>ListenAndServeTLS\<close>. \<open>Shutdown\<close> closes the
  listener first, whereupon \<open>ListenAndServeTLS\<close> returns, and then waits for the requests.
\<close>

datatype serve_end = ServerClosed | ServeFailed string

definition exit_status :: "serve_end \<Rightarrow> nat" where
  "exit_status e = (case e of ServerClosed \<Rightarrow> 0 | ServeFailed _ \<Rightarrow> 1)"

record life =
  lf_signalled :: bool
  lf_closed :: bool
  lf_returned :: "serve_end option"
  lf_inflight :: nat
  lf_exited :: "nat option"

definition born :: life where
  "born = \<lparr>lf_signalled = False, lf_closed = False, lf_returned = None, lf_inflight = 0, lf_exited = None\<rparr>"

inductive life_step :: "life \<Rightarrow> life \<Rightarrow> bool" where
  accept: "lf_exited s = None \<Longrightarrow> \<not> lf_closed s \<Longrightarrow> lf_returned s = None \<Longrightarrow>
    life_step s (s\<lparr>lf_inflight := lf_inflight s + 1\<rparr>)"
| finish: "lf_exited s = None \<Longrightarrow> lf_inflight s = Suc n \<Longrightarrow> life_step s (s\<lparr>lf_inflight := n\<rparr>)"
| signal: "lf_exited s = None \<Longrightarrow> life_step s (s\<lparr>lf_signalled := True\<rparr>)"
| shutdown: "lf_exited s = None \<Longrightarrow> lf_signalled s \<Longrightarrow> life_step s (s\<lparr>lf_closed := True\<rparr>)"
| closed: "lf_exited s = None \<Longrightarrow> lf_closed s \<Longrightarrow> lf_returned s = None \<Longrightarrow>
    life_step s (s\<lparr>lf_returned := Some ServerClosed\<rparr>)"
| failed: "lf_exited s = None \<Longrightarrow> lf_returned s = None \<Longrightarrow> life_step s (s\<lparr>lf_returned := Some (ServeFailed msg)\<rparr>)"
| exit: "lf_exited s = None \<Longrightarrow> lf_returned s = Some e \<Longrightarrow> life_step s (s\<lparr>lf_exited := Some (exit_status e)\<rparr>)"

inductive_cases life_stepE: "life_step s s'"

lemma exited_is_final: "lf_exited s = Some n \<Longrightarrow> \<not> life_step s s'"
  by (auto elim: life_stepE)

definition life_ok :: "life \<Rightarrow> bool" where
  "life_ok s =
     ((lf_closed s \<longrightarrow> lf_signalled s) \<and> (lf_returned s = Some ServerClosed \<longrightarrow> lf_closed s) \<and>
      (\<forall>n. lf_exited s = Some n \<longrightarrow> (\<exists>e. lf_returned s = Some e \<and> n = exit_status e)))"

lemma life_ok_step: "life_step s s' \<Longrightarrow> life_ok s \<Longrightarrow> life_ok s'"
  by (induction rule: life_step.induct) (auto simp: life_ok_def)

lemma life_ok_reached: "life_step\<^sup>*\<^sup>* born s \<Longrightarrow> life_ok s"
  by (erule reachable_invariant [where P = life_ok]) (simp add: life_ok_def born_def, rule life_ok_step)

text \<open>
  A supervisor can rely on the exit status: the program exits with 0 only after a signal, and
  with 1 only when the listener failed.
\<close>

theorem exit_status_meaning:
  assumes "life_step\<^sup>*\<^sup>* born s" and "lf_exited s = Some n"
  shows "(n = 0 \<longleftrightarrow> lf_returned s = Some ServerClosed) \<and> (n = 0 \<longrightarrow> lf_signalled s) \<and>
    (n = 1 \<longleftrightarrow> (\<exists>msg. lf_returned s = Some (ServeFailed msg)))"
proof -
  obtain e where "lf_returned s = Some e" "n = exit_status e"
    using life_ok_reached [OF assms(1)] assms(2) by (auto simp: life_ok_def)
  then show ?thesis
    using life_ok_reached [OF assms(1)] by (cases e) (auto simp: life_ok_def exit_status_def)
qed

text \<open>
  But \<open>main\<close> does not wait for \<open>Shutdown\<close>: the program may exit while requests are in flight, the
  ten seconds granted to them notwithstanding.
\<close>

definition cut_off :: life where
  "cut_off = \<lparr>lf_signalled = True, lf_closed = True, lf_returned = Some ServerClosed, lf_inflight = 1, lf_exited = Some 0\<rparr>"

lemma exits_before_drained: "life_step\<^sup>*\<^sup>* born cut_off"
proof -
  let ?s1 = "born\<lparr>lf_inflight := 1\<rparr>" and ?s2 = "born\<lparr>lf_inflight := 1, lf_signalled := True\<rparr>"
  let ?s3 = "?s2\<lparr>lf_closed := True\<rparr>" and ?s4 = "?s2\<lparr>lf_closed := True, lf_returned := Some ServerClosed\<rparr>"
  have 1: "life_step born ?s1" using accept [of born] by (simp add: born_def)
  have 2: "life_step ?s1 ?s2" using signal [of ?s1] by (simp add: born_def)
  have 3: "life_step ?s2 ?s3" using shutdown [of ?s2] by (simp add: born_def)
  have 4: "life_step ?s3 ?s4" using closed [of ?s3] by (simp add: born_def)
  have 5: "life_step ?s4 cut_off" using exit [of ?s4 ServerClosed] by (simp add: born_def cut_off_def exit_status_def)
  show ?thesis using 1 2 3 4 5 by (meson converse_rtranclp_into_rtranclp rtranclp.rtrancl_refl)
qed

theorem exit_status_meaning_witness: "lf_signalled cut_off"
  using exit_status_meaning [OF exits_before_drained, of 0] by (simp add: cut_off_def)

end
